theory Spec2Isabelle
  imports Main
begin

section \<open>JavaScript values\<close>

text \<open>
  A parsed JSON document, as \<^verbatim>\<open>JSON.parse\<close> returns it. Objects keep their
  entries in insertion order, which is the order \<^verbatim>\<open>Object.entries\<close> walks.
  Numbers are restricted to integers.
\<close>

datatype json =
    JNull
  | JBool bool
  | JNum int
  | JStr string
  | JArr "json list"
  | JObj "(string \<times> json) list"

text \<open>JavaScript truthiness of a value that is present.\<close>

fun truthy :: "json \<Rightarrow> bool" where
  "truthy JNull = False"
| "truthy (JBool b) = b"
| "truthy (JNum n) = (n \<noteq> 0)"
| "truthy (JStr s) = (s \<noteq> [])"
| "truthy (JArr xs) = True"
| "truthy (JObj kvs) = True"

text \<open>
  Reading a property of a value that is not null: \<open>None\<close> is \<^verbatim>\<open>undefined\<close>.
  Reading a property of \<^verbatim>\<open>null\<close> throws and is handled where it happens.
\<close>

fun getProp :: "json \<Rightarrow> string \<Rightarrow> json option" where
  "getProp (JObj kvs) k = map_of kvs k"
| "getProp v k = None"

text \<open>\<^verbatim>\<open>x || {}\<close> for a property read \<open>x\<close>.\<close>

definition orEmptyObject :: "json option \<Rightarrow> json" where
  "orEmptyObject x = (case x of None \<Rightarrow> JObj [] | Some v \<Rightarrow> if truthy v then v else JObj [])"

text \<open>\<^verbatim>\<open>xs.slice(a, b)\<close> for \<open>0 \<le> a \<le> b\<close>.\<close>

definition slice :: "'a list \<Rightarrow> nat \<Rightarrow> nat \<Rightarrow> 'a list" where
  "slice xs a b = take (b - a) (drop a xs)"

datatype jsError =
    SyntaxError
  | TypeError
  | UniqueConstraintFailed
  | PrismaClientError
  | RequestError

section \<open>The store\<close>

text \<open>
  The tables of the schema: \<^verbatim>\<open>organizations\<close>, \<^verbatim>\<open>repositories\<close> (primary key
  \<^verbatim>\<open>id\<close>, unique \<^verbatim>\<open>full_name\<close>, unique \<^verbatim>\<open>github_id\<close>) and the package.json rows
  (unique \<^verbatim>\<open>repositoryId\<close>). Times are natural numbers.
\<close>

record organization =
  o_id :: nat
  o_name :: string

record repository =
  r_id :: nat
  r_organizationId :: nat
  r_name :: string
  r_fullName :: string
  r_githubId :: "nat option"
  r_description :: "string option"
  r_url :: string
  r_defaultBranch :: string
  r_lastFetchedAt :: "nat option"
  r_hasPackageJson :: bool

record packageJson =
  pj_repositoryId :: nat
  pj_name :: "json option"
  pj_version :: "json option"
  pj_description :: "json option"
  pj_author :: "json option"
  pj_license :: "json option"
  pj_dependencies :: json
  pj_devDependencies :: json
  pj_scripts :: json
  pj_fullContent :: json
  pj_fetchedAt :: nat

record database =
  organizations :: "organization list"
  repositories :: "repository list"
  packageJsons :: "packageJson list"

text \<open>A repository descriptor of the hosting API's listing.\<close>

record githubRepo =
  gh_id :: nat
  gh_name :: string
  gh_full_name :: string
  gh_html_url :: string
  gh_default_branch :: "string option"
  gh_description :: "string option"
  gh_owner_login :: string

text \<open>
  What the outside world does during one repository's unit of work: the answer of
  \<^verbatim>\<open>octokit.repos.getContent\<close>, the two readings of the clock, the key the store
  gives a created row, and the store operations that fail on their own account
  (connection loss, validation, an expired transaction).
\<close>

datatype octokitResponse =
    Resolved "string option" nat
  | Rejected "nat option"

datatype txPoint =
    AtRepositoryUpsert
  | AtPackageJsonUpsert
  | AtPackageJsonDeleteMany
  | AtRepositoryUpdate
  | AtCommit

record repoWorld =
  w_response :: octokitResponse
  w_now :: nat
  w_fetchedNow :: nat
  w_newId :: nat
  w_fails :: "txPoint \<Rightarrow> bool"

text \<open>
  \<^verbatim>\<open>getPackageJsonContent(owner, repo)\<close> of lib/github: it never throws. A resolved
  request whose data has no \<^verbatim>\<open>content\<close> makes \<^verbatim>\<open>Buffer.from\<close> throw inside the
  \<^verbatim>\<open>try\<close>, an error without a status; \<^verbatim>\<open>error.status || 500\<close> turns a missing
  or zero status into 500.
\<close>

definition getPackageJsonContent :: "octokitResponse \<Rightarrow> string option \<times> nat" where
  "getPackageJsonContent resp =
     (case resp of
        Resolved (Some c) st \<Rightarrow> (Some c, st)
      | Resolved None st \<Rightarrow> (None, 500)
      | Rejected None \<Rightarrow> (None, 500)
      | Rejected (Some st) \<Rightarrow>
          if st = 404 then (None, 404) else (None, if st = 0 then 500 else st))"

subsection \<open>Store operations\<close>

text \<open>The creation default of \<^verbatim>\<open>hasPackageJson\<close>, as the route's create writes it.\<close>

definition hasPackageJson_default :: bool where
  "hasPackageJson_default = False"

definition commonRepoData :: "nat \<Rightarrow> nat \<Rightarrow> githubRepo \<Rightarrow> repository \<Rightarrow> repository" where
  "commonRepoData orgId now g r =
     r\<lparr> r_organizationId := orgId,
        r_name := gh_name g,
        r_fullName := gh_full_name g,
        r_url := gh_html_url g,
        r_defaultBranch :=
          (case gh_default_branch g of None \<Rightarrow> ''main''
           | Some b \<Rightarrow> if b = [] then ''main'' else b),
        r_description := gh_description g,
        r_githubId := Some (gh_id g),
        r_lastFetchedAt := Some now \<rparr>"

definition blankRepository :: "nat \<Rightarrow> repository" where
  "blankRepository i =
     \<lparr> r_id = i, r_organizationId = 0, r_name = [], r_fullName = [], r_githubId = None,
       r_description = None, r_url = [], r_defaultBranch = [], r_lastFetchedAt = None,
       r_hasPackageJson = hasPackageJson_default \<rparr>"

text \<open>
  \<^verbatim>\<open>tx.repository.upsert({ where: { githubId }, update: commonRepoData, create: commonRepoData })\<close>.
  The unique indexes are checked: a full name held by another row, or a new key that
  is taken, fails the statement.
\<close>

definition repository_upsert ::
  "nat \<Rightarrow> nat \<Rightarrow> nat \<Rightarrow> githubRepo \<Rightarrow> database \<Rightarrow> jsError + (database \<times> repository)" where
  "repository_upsert orgId now newId g db =
     (case find (\<lambda>r. r_githubId r = Some (gh_id g)) (repositories db) of
        Some old \<Rightarrow>
          if list_ex (\<lambda>r. r_id r \<noteq> r_id old \<and> r_fullName r = gh_full_name g) (repositories db)
          then Inl UniqueConstraintFailed
          else
            let new = commonRepoData orgId now g old in
            Inr (db\<lparr>repositories :=
                      map (\<lambda>r. if r_id r = r_id old then new else r) (repositories db)\<rparr>, new)
      | None \<Rightarrow>
          if list_ex (\<lambda>r. r_id r = newId \<or> r_fullName r = gh_full_name g) (repositories db)
          then Inl UniqueConstraintFailed
          else
            let new = commonRepoData orgId now g (blankRepository newId) in
            Inr (db\<lparr>repositories := repositories db @ [new]\<rparr>, new))"

text \<open>\<^verbatim>\<open>tx.repository.update({ where: { id }, data: { hasPackageJson } })\<close>.\<close>

definition repository_update :: "nat \<Rightarrow> bool \<Rightarrow> database \<Rightarrow> database" where
  "repository_update i flag db =
     db\<lparr>repositories :=
          map (\<lambda>r. if r_id r = i then r\<lparr>r_hasPackageJson := flag\<rparr> else r) (repositories db)\<rparr>"

text \<open>
  The data of the package.json upsert, lines 139-164, written over a row. Prisma leaves
  a field whose value is \<^verbatim>\<open>undefined\<close> out of the statement: an update keeps the
  column as it is, a create leaves it NULL.
\<close>

fun orKeep :: "'a option \<Rightarrow> 'a option \<Rightarrow> 'a option" where
  "orKeep None old = old"
| "orKeep (Some v) old = Some v"

definition packageJsonData :: "json \<Rightarrow> nat \<Rightarrow> packageJson \<Rightarrow> packageJson" where
  "packageJsonData pkg now p =
     p\<lparr> pj_name := orKeep (getProp pkg ''name'') (pj_name p),
        pj_version := orKeep (getProp pkg ''version'') (pj_version p),
        pj_description := orKeep (getProp pkg ''description'') (pj_description p),
        pj_author := orKeep (getProp pkg ''author'') (pj_author p),
        pj_license := orKeep (getProp pkg ''license'') (pj_license p),
        pj_dependencies := orEmptyObject (getProp pkg ''dependencies''),
        pj_devDependencies := orEmptyObject (getProp pkg ''devDependencies''),
        pj_scripts := orEmptyObject (getProp pkg ''scripts''),
        pj_fullContent := pkg,
        pj_fetchedAt := now \<rparr>"

definition blankPackageJson :: "nat \<Rightarrow> packageJson" where
  "blankPackageJson i =
     \<lparr> pj_repositoryId = i, pj_name = None, pj_version = None, pj_description = None,
       pj_author = None, pj_license = None, pj_dependencies = JNull,
       pj_devDependencies = JNull, pj_scripts = JNull, pj_fullContent = JNull,
       pj_fetchedAt = 0 \<rparr>"

text \<open>\<^verbatim>\<open>tx.packageJson.upsert({ where: { repositoryId }, update, create })\<close>.\<close>

definition packageJson_upsert :: "nat \<Rightarrow> json \<Rightarrow> nat \<Rightarrow> database \<Rightarrow> database" where
  "packageJson_upsert i pkg now db =
     (if list_ex (\<lambda>p. pj_repositoryId p = i) (packageJsons db)
      then db\<lparr>packageJsons :=
                map (\<lambda>p. if pj_repositoryId p = i then packageJsonData pkg now p else p)
                  (packageJsons db)\<rparr>
      else db\<lparr>packageJsons := packageJsons db @ [packageJsonData pkg now (blankPackageJson i)]\<rparr>)"

text \<open>\<^verbatim>\<open>tx.packageJson.deleteMany({ where: { repositoryId } })\<close>.\<close>

definition packageJson_deleteMany :: "nat \<Rightarrow> database \<Rightarrow> database" where
  "packageJson_deleteMany i db =
     db\<lparr>packageJsons := filter (\<lambda>p. pj_repositoryId p \<noteq> i) (packageJsons db)\<rparr>"

section \<open>The reconciliation engine: lib/syncOrganizationRepos.js\<close>

definition BATCH_SIZE :: nat where
  "BATCH_SIZE = 10"

definition DELAY_BETWEEN_BATCHES :: nat where
  "DELAY_BETWEEN_BATCHES = 2000"

text \<open>
  The lines the engine writes per repository (\<^verbatim>\<open>console.log\<close> and
  \<^verbatim>\<open>console.error\<close>), and the events of its schedule, in the order in which
  they happen: \<open>Batch b\<close> is an iteration of the loop taking the slice \<open>b\<close> (lines
  105-106); \<open>Started g\<close> is \<^verbatim>\<open>batch.map\<close> calling the asynchronous function of
  \<open>g\<close>, which requests its transaction and is suspended at the \<^verbatim>\<open>await\<close> of line
  111; \<open>Finished g\<close> is the promise of \<open>g\<close> settling, with the unit of work of
  \<open>g\<close> done; \<open>Wait ms\<close> is the \<^verbatim>\<open>setTimeout\<close> of line 202.
\<close>

datatype logLine =
    Processed string
  | NoPackageJsonFor string
  | ErrorStatus string nat
  | CriticalError string jsError

datatype pacing =
    Batch "githubRepo list"
  | Started githubRepo
  | Finished githubRepo
  | Wait nat

text \<open>The variables of one run that live outside every transaction.\<close>

record engine =
  successCount :: nat
  noPackageJsonCount :: nat
  errorCount :: nat
  console :: "logLine list"
  timeline :: "pacing list"

definition engine0 :: engine where
  "engine0 = \<lparr> successCount = 0, noPackageJsonCount = 0, errorCount = 0,
               console = [], timeline = [] \<rparr>"

text \<open>
  The counter increments with their console lines: lines 171-172, 182-183, 186-187 and
  the \<^verbatim>\<open>catch\<close> of lines 190-194.
\<close>

definition countProcessed :: "githubRepo \<Rightarrow> engine \<Rightarrow> engine" where
  "countProcessed g e =
     e\<lparr> successCount := successCount e + 1,
        console := console e @ [Processed (gh_full_name g)] \<rparr>"

definition countNoPackageJson :: "githubRepo \<Rightarrow> engine \<Rightarrow> engine" where
  "countNoPackageJson g e =
     e\<lparr> noPackageJsonCount := noPackageJsonCount e + 1,
        console := console e @ [NoPackageJsonFor (gh_full_name g)] \<rparr>"

definition countErrorStatus :: "githubRepo \<Rightarrow> nat \<Rightarrow> engine \<Rightarrow> engine" where
  "countErrorStatus g status e =
     e\<lparr> console := console e @ [ErrorStatus (gh_full_name g) status],
        errorCount := errorCount e + 1 \<rparr>"

definition caught :: "githubRepo \<Rightarrow> jsError \<Rightarrow> engine \<Rightarrow> engine" where
  "caught g repoError e =
     e\<lparr> console := console e @ [CriticalError (gh_full_name g) repoError],
        errorCount := errorCount e + 1 \<rparr>"

text \<open>Lines 137-172: the manifest was fetched.\<close>

definition onFound ::
  "(string \<Rightarrow> json option) \<Rightarrow> repoWorld \<Rightarrow> githubRepo \<Rightarrow> repository \<Rightarrow> string \<Rightarrow>
   database \<Rightarrow> engine \<Rightarrow> (jsError + database) \<times> engine" where
  "onFound JSON_parse w g repository packageJsonContent db e =
     (case JSON_parse packageJsonContent of
        None \<Rightarrow> (Inl SyntaxError, e)
      | Some pkg \<Rightarrow>
          if pkg = JNull then (Inl TypeError, e)
          else if w_fails w AtPackageJsonUpsert then (Inl PrismaClientError, e)
          else if w_fails w AtRepositoryUpdate then (Inl PrismaClientError, e)
          else
            (Inr (repository_update (r_id repository) True
                    (packageJson_upsert (r_id repository) pkg (w_fetchedNow w) db)),
             countProcessed g e))"

text \<open>Lines 173-183: the manifest is confirmed absent.\<close>

definition onNotFound ::
  "repoWorld \<Rightarrow> githubRepo \<Rightarrow> repository \<Rightarrow> database \<Rightarrow> engine \<Rightarrow>
   (jsError + database) \<times> engine" where
  "onNotFound w g repository db e =
     (if w_fails w AtPackageJsonDeleteMany then (Inl PrismaClientError, e)
      else if w_fails w AtRepositoryUpdate then (Inl PrismaClientError, e)
      else
        (Inr (repository_update (r_id repository) False
                (packageJson_deleteMany (r_id repository) db)),
         countNoPackageJson g e))"

text \<open>Lines 184-188: any other status.\<close>

definition onOtherStatus ::
  "githubRepo \<Rightarrow> nat \<Rightarrow> database \<Rightarrow> engine \<Rightarrow> (jsError + database) \<times> engine" where
  "onOtherStatus g status db e = (Inr db, countErrorStatus g status e)"

text \<open>The test of line 137, \<^verbatim>\<open>status === 200 && packageJsonContent\<close>.\<close>

definition found :: "string option \<times> nat \<Rightarrow> bool" where
  "found fetched = (snd fetched = 200 \<and> fst fetched \<noteq> None \<and> fst fetched \<noteq> Some [])"

text \<open>
  The callback given to \<^verbatim>\<open>prisma.$transaction\<close> (lines 111-189): the store it
  leaves, or the error it throws, and the engine's variables either way.
\<close>

definition txBody ::
  "(string \<Rightarrow> json option) \<Rightarrow> nat \<Rightarrow> repoWorld \<Rightarrow> githubRepo \<Rightarrow> database \<Rightarrow> engine \<Rightarrow>
   (jsError + database) \<times> engine" where
  "txBody JSON_parse orgId w g db e =
     (if w_fails w AtRepositoryUpsert then (Inl PrismaClientError, e)
      else
        case repository_upsert orgId (w_now w) (w_newId w) g db of
          Inl err \<Rightarrow> (Inl err, e)
        | Inr (db1, repository) \<Rightarrow>
            let fetched = getPackageJsonContent (w_response w) in
            if found fetched
            then onFound JSON_parse w g repository
                   (case fst fetched of Some c \<Rightarrow> c | None \<Rightarrow> []) db1 e
            else if snd fetched = 404 then onNotFound w g repository db1 e
            else onOtherStatus g (snd fetched) db1 e)"

text \<open>
  \<^verbatim>\<open>prisma.$transaction\<close>: the callback's writes are kept when it returns and the
  commit goes through, and dropped otherwise. The engine's variables are not part of
  the transaction.
\<close>

definition prisma_transaction ::
  "repoWorld \<Rightarrow> (jsError + database) \<times> engine \<Rightarrow> database \<Rightarrow> jsError option \<times> database \<times> engine" where
  "prisma_transaction w body db =
     (case fst body of
        Inl err \<Rightarrow> (Some err, db, snd body)
      | Inr db1 \<Rightarrow>
          if w_fails w AtCommit then (Some PrismaClientError, db, snd body)
          else (None, db1, snd body))"

text \<open>One element of \<^verbatim>\<open>batch.map(async (githubRepo) => ...)\<close>: lines 108-195.\<close>

definition processRepo ::
  "(string \<Rightarrow> json option) \<Rightarrow> nat \<Rightarrow> (githubRepo \<Rightarrow> repoWorld) \<Rightarrow> githubRepo \<Rightarrow>
   database \<times> engine \<Rightarrow> database \<times> engine" where
  "processRepo JSON_parse orgId world g s =
     (case prisma_transaction (world g)
             (txBody JSON_parse orgId (world g) g (fst s) (snd s)) (fst s) of
        (None, db1, e) \<Rightarrow> (db1, e)
      | (Some repoError, db1, e) \<Rightarrow> (db1, caught g repoError e))"

text \<open>
  The units of work of a list of repositories, one after the other in the order of
  the list: what they leave in the store, in the counters and on the console.
\<close>

definition batchPromises ::
  "(string \<Rightarrow> json option) \<Rightarrow> nat \<Rightarrow> (githubRepo \<Rightarrow> repoWorld) \<Rightarrow> githubRepo list \<Rightarrow>
   database \<times> engine \<Rightarrow> database \<times> engine" where
  "batchPromises JSON_parse orgId world batch s =
     foldl (\<lambda>s g. processRepo JSON_parse orgId world g s) s batch"

definition pace :: "pacing \<Rightarrow> database \<times> engine \<Rightarrow> database \<times> engine" where
  "pace p s = (fst s, (snd s)\<lparr> timeline := timeline (snd s) @ [p] \<rparr>)"

definition paces :: "pacing list \<Rightarrow> database \<times> engine \<Rightarrow> database \<times> engine" where
  "paces ps s = (fst s, (snd s)\<lparr> timeline := timeline (snd s) @ ps \<rparr>)"

text \<open>
  \<^verbatim>\<open>batch.map(async (githubRepo) => ...)\<close>, line 108: every unit of work of the
  batch is started, in the order of the batch, before \<^verbatim>\<open>map\<close> returns; none of
  them has run its transaction yet.
\<close>

definition map_async :: "githubRepo list \<Rightarrow> database \<times> engine \<Rightarrow> database \<times> engine" where
  "map_async batch s = paces (map Started batch) s"

text \<open>
  \<^verbatim>\<open>await Promise.allSettled(batchPromises)\<close>, line 198, with the units of work
  settling in the order of the batch. The store isolates the transactions in
  flight, so the effect of a unit of work is taken at the moment it settles. The
  relation \<open>step\<close> below lets them settle in any order.
\<close>

definition allSettled ::
  "(string \<Rightarrow> json option) \<Rightarrow> nat \<Rightarrow> (githubRepo \<Rightarrow> repoWorld) \<Rightarrow> githubRepo list \<Rightarrow>
   database \<times> engine \<Rightarrow> database \<times> engine" where
  "allSettled JSON_parse orgId world batch s =
     foldl (\<lambda>s g. pace (Finished g) (processRepo JSON_parse orgId world g s)) s batch"

text \<open>The loop of lines 104-204, with the units of a batch settling in its order.\<close>

function syncLoop ::
  "(string \<Rightarrow> json option) \<Rightarrow> nat \<Rightarrow> (githubRepo \<Rightarrow> repoWorld) \<Rightarrow> githubRepo list \<Rightarrow> nat \<Rightarrow>
   database \<times> engine \<Rightarrow> database \<times> engine" where
  "syncLoop JSON_parse orgId world allRepos i s =
     (if i < length allRepos then
        let batch = slice allRepos i (i + BATCH_SIZE);
            s1 = allSettled JSON_parse orgId world batch
                   (map_async batch (pace (Batch batch) s));
            s2 = (if i + BATCH_SIZE < length allRepos
                  then pace (Wait DELAY_BETWEEN_BATCHES) s1 else s1)
        in syncLoop JSON_parse orgId world allRepos (i + BATCH_SIZE) s2
      else s)"
  by pat_completeness auto
termination
  by (relation "measure (\<lambda>(JSON_parse, orgId, world, allRepos, i, s). length allRepos - i)")
     (auto simp: BATCH_SIZE_def)

declare syncLoop.simps [simp del]

text \<open>
  The same loop with the units of work of a batch in flight together. The loop is
  either at its head with the index \<open>i\<close>, or suspended at the
  \<^verbatim>\<open>await Promise.allSettled\<close> of line 198 with the units of work that have not
  settled yet. At the head it takes the next slice and starts all its units; while
  it is suspended any unit in flight may settle next; when none is left it resumes,
  waits if another batch follows (lines 201-203), and is at its head again.
\<close>

datatype control =
    Head nat
  | Awaiting nat "githubRepo list"

text \<open>The states that can come next.\<close>

fun successors ::
  "(string \<Rightarrow> json option) \<Rightarrow> nat \<Rightarrow> (githubRepo \<Rightarrow> repoWorld) \<Rightarrow> githubRepo list \<Rightarrow>
   control \<times> database \<times> engine \<Rightarrow> (control \<times> database \<times> engine) list" where
  "successors JSON_parse orgId world allRepos (Head i, s) =
     (if i < length allRepos
      then [(Awaiting i (slice allRepos i (i + BATCH_SIZE)),
             map_async (slice allRepos i (i + BATCH_SIZE))
               (pace (Batch (slice allRepos i (i + BATCH_SIZE))) s))]
      else [])"
| "successors JSON_parse orgId world allRepos (Awaiting i [], s) =
     [(Head (i + BATCH_SIZE),
       if i + BATCH_SIZE < length allRepos then pace (Wait DELAY_BETWEEN_BATCHES) s else s)]"
| "successors JSON_parse orgId world allRepos (Awaiting i (p # pending), s) =
     map (\<lambda>g. (Awaiting i (remove1 g (p # pending)),
                pace (Finished g) (processRepo JSON_parse orgId world g s)))
       (p # pending)"

definition step ::
  "(string \<Rightarrow> json option) \<Rightarrow> nat \<Rightarrow> (githubRepo \<Rightarrow> repoWorld) \<Rightarrow> githubRepo list \<Rightarrow>
   control \<times> database \<times> engine \<Rightarrow> control \<times> database \<times> engine \<Rightarrow> bool" where
  "step JSON_parse orgId world allRepos c c' \<longleftrightarrow>
     c' \<in> set (successors JSON_parse orgId world allRepos c)"

text \<open>An execution: any number of steps.\<close>

definition steps ::
  "(string \<Rightarrow> json option) \<Rightarrow> nat \<Rightarrow> (githubRepo \<Rightarrow> repoWorld) \<Rightarrow> githubRepo list \<Rightarrow>
   control \<times> database \<times> engine \<Rightarrow> control \<times> database \<times> engine \<Rightarrow> bool" where
  "steps JSON_parse orgId world allRepos = rtranclp (step JSON_parse orgId world allRepos)"

text \<open>What the run needs besides the per-repository worlds.\<close>

record world =
  orgUpsertFails :: bool
  orgNewId :: nat
  listForOrg :: "githubRepo list option"
  repoWorldOf :: "githubRepo \<Rightarrow> repoWorld"

text \<open>\<^verbatim>\<open>prisma.organization.upsert({ where: { name }, update: {}, create: { name } })\<close>.\<close>

definition organization_upsert ::
  "bool \<Rightarrow> nat \<Rightarrow> string \<Rightarrow> database \<Rightarrow> jsError + (database \<times> organization)" where
  "organization_upsert fails newId orgName db =
     (if fails then Inl PrismaClientError
      else
        case find (\<lambda>ou. o_name ou = orgName) (organizations db) of
          Some ou \<Rightarrow> Inr (db, ou)
        | None \<Rightarrow>
            if list_ex (\<lambda>ou. o_id ou = newId) (organizations db)
            then Inl UniqueConstraintFailed
            else
              let ou = \<lparr> o_id = newId, o_name = orgName \<rparr> in
              Inr (db\<lparr>organizations := organizations db @ [ou]\<rparr>, ou))"

definition message :: "jsError \<Rightarrow> string" where
  "message err =
     (case err of
        SyntaxError \<Rightarrow> ''SyntaxError''
      | TypeError \<Rightarrow> ''TypeError''
      | UniqueConstraintFailed \<Rightarrow> ''Unique constraint failed''
      | PrismaClientError \<Rightarrow> ''PrismaClientError''
      | RequestError \<Rightarrow> ''RequestError'')"

text \<open>The two objects the function returns (lines 211 and 214).\<close>

definition syncComplete :: "engine \<Rightarrow> json" where
  "syncComplete e =
     JObj [(''success'', JBool True),
           (''message'', JStr ''Sync complete.''),
           (''successCount'', JNum (int (successCount e))),
           (''noPackageJsonCount'', JNum (int (noPackageJsonCount e))),
           (''errorCount'', JNum (int (errorCount e)))]"

definition syncFailed :: "jsError \<Rightarrow> json" where
  "syncFailed err =
     JObj [(''success'', JBool False),
           (''message'', JStr (''Failed to sync organization: '' @ message err))]"

text \<open>
  \<^verbatim>\<open>syncOrganizationRepos(orgName)\<close>: the object returned, the store and the
  engine's variables at the end.
\<close>

definition syncOrganizationRepos ::
  "(string \<Rightarrow> json option) \<Rightarrow> world \<Rightarrow> string \<Rightarrow> database \<Rightarrow> json \<times> database \<times> engine" where
  "syncOrganizationRepos JSON_parse W orgName db =
     (case organization_upsert (orgUpsertFails W) (orgNewId W) orgName db of
        Inl err \<Rightarrow> (syncFailed err, db, engine0)
      | Inr (db1, organization) \<Rightarrow>
          (case listForOrg W of
             None \<Rightarrow> (syncFailed RequestError, db1, engine0)
           | Some allRepos \<Rightarrow>
               let s = syncLoop JSON_parse (o_id organization) (repoWorldOf W) allRepos 0
                         (db1, engine0)
               in (syncComplete (snd s), fst s, snd s)))"

section \<open>Case analysis of one unit of work\<close>

lemma onFound_cases:
  "(\<exists>err. \<forall>e. onFound P w g r c db e = (Inl err, e)) \<or>
   (\<exists>pkg. P c = Some pkg \<and> pkg \<noteq> JNull \<and>
      (\<forall>e. onFound P w g r c db e =
        (Inr (repository_update (r_id r) True (packageJson_upsert (r_id r) pkg (w_fetchedNow w) db)),
         countProcessed g e)))"
  by (cases "P c") (auto simp: onFound_def)

lemma onNotFound_cases:
  "(\<exists>err. \<forall>e. onNotFound w g r db e = (Inl err, e)) \<or>
   (\<forall>e. onNotFound w g r db e =
        (Inr (repository_update (r_id r) False (packageJson_deleteMany (r_id r) db)),
         countNoPackageJson g e))"
  by (auto simp: onNotFound_def)

lemma txBody_cases:
  obtains (threw) err where "\<And>e. txBody P orgId w g db e = (Inl err, e)"
  | (found) db1 r pkg c where
      "repository_upsert orgId (w_now w) (w_newId w) g db = Inr (db1, r)"
      "getPackageJsonContent (w_response w) = (Some c, 200)" "c \<noteq> []"
      "P c = Some pkg" "pkg \<noteq> JNull"
      "\<And>e. txBody P orgId w g db e =
         (Inr (repository_update (r_id r) True (packageJson_upsert (r_id r) pkg (w_fetchedNow w) db1)),
          countProcessed g e)"
  | (notFound) db1 r where
      "repository_upsert orgId (w_now w) (w_newId w) g db = Inr (db1, r)"
      "snd (getPackageJsonContent (w_response w)) = 404"
      "\<And>e. txBody P orgId w g db e =
         (Inr (repository_update (r_id r) False (packageJson_deleteMany (r_id r) db1)),
          countNoPackageJson g e)"
  | (other) db1 r where
      "repository_upsert orgId (w_now w) (w_newId w) g db = Inr (db1, r)"
      "\<not> found (getPackageJsonContent (w_response w))"
      "snd (getPackageJsonContent (w_response w)) \<noteq> 404"
      "\<And>e. txBody P orgId w g db e =
         (Inr db1, countErrorStatus g (snd (getPackageJsonContent (w_response w))) e)"
proof (cases "w_fails w AtRepositoryUpsert")
  case True
  then show ?thesis using threw by (simp add: txBody_def)
next
  case nofail: False
  show ?thesis
  proof (cases "repository_upsert orgId (w_now w) (w_newId w) g db")
    case (Inl err)
    then show ?thesis using threw nofail by (simp add: txBody_def)
  next
    case (Inr p)
    obtain db1 r where p: "p = (db1, r)" by (cases p)
    obtain co st where f: "getPackageJsonContent (w_response w) = (co, st)"
      by (cases "getPackageJsonContent (w_response w)")
    show ?thesis
    proof (cases "found (co, st)")
      case True
      then obtain c where c: "co = Some c" "c \<noteq> []" "st = 200"
        by (auto simp: found_def)
      have tx: "\<And>e. txBody P orgId w g db e = onFound P w g r c db1 e"
        using nofail Inr p f True c by (simp add: txBody_def)
      from onFound_cases[of P w g r c db1] show ?thesis
      proof
        assume "\<exists>err. \<forall>e. onFound P w g r c db1 e = (Inl err, e)"
        then show ?thesis using threw tx by auto
      next
        assume "\<exists>pkg. P c = Some pkg \<and> pkg \<noteq> JNull \<and>
          (\<forall>e. onFound P w g r c db1 e =
          (Inr (repository_update (r_id r) True (packageJson_upsert (r_id r) pkg (w_fetchedNow w) db1)),
           countProcessed g e))"
        then obtain pkg where "P c = Some pkg" "pkg \<noteq> JNull"
          "\<And>e. onFound P w g r c db1 e =
          (Inr (repository_update (r_id r) True (packageJson_upsert (r_id r) pkg (w_fetchedNow w) db1)),
           countProcessed g e)" by blast
        then show ?thesis using found[of db1 r c pkg] Inr p f c tx by simp
      qed
    next
      case nf: False
      show ?thesis
      proof (cases "st = 404")
        case True
        have tx: "\<And>e. txBody P orgId w g db e = onNotFound w g r db1 e"
          using nofail Inr p f nf True by (simp add: txBody_def)
        from onNotFound_cases[of w g r db1] show ?thesis
        proof
          assume "\<exists>err. \<forall>e. onNotFound w g r db1 e = (Inl err, e)"
          then show ?thesis using threw tx by auto
        next
          assume "\<forall>e. onNotFound w g r db1 e =
            (Inr (repository_update (r_id r) False (packageJson_deleteMany (r_id r) db1)),
             countNoPackageJson g e)"
          then show ?thesis using notFound[of db1 r] Inr p f True tx by simp
        qed
      next
        case False
        have "\<And>e. txBody P orgId w g db e = (Inr db1, countErrorStatus g st e)"
          using nofail Inr p f nf False by (simp add: txBody_def onOtherStatus_def)
        then show ?thesis using other[of db1 r] Inr p f nf False by simp
      qed
    qed
  qed
qed

lemma processRepo_cases:
  obtains (threw) err where
      "\<And>e. processRepo P orgId world g (db, e) = (db, caught g err e)"
  | (commitFailed) f where
      "w_fails (world g) AtCommit"
      "f = countProcessed g \<or> f = countNoPackageJson g \<or> (\<exists>st. f = countErrorStatus g st)"
      "\<And>e. processRepo P orgId world g (db, e) = (db, caught g PrismaClientError (f e))"
  | (found) db1 r pkg c where
      "\<not> w_fails (world g) AtCommit"
      "repository_upsert orgId (w_now (world g)) (w_newId (world g)) g db = Inr (db1, r)"
      "getPackageJsonContent (w_response (world g)) = (Some c, 200)" "c \<noteq> []"
      "P c = Some pkg" "pkg \<noteq> JNull"
      "\<And>e. processRepo P orgId world g (db, e) =
         (repository_update (r_id r) True
            (packageJson_upsert (r_id r) pkg (w_fetchedNow (world g)) db1),
          countProcessed g e)"
  | (notFound) db1 r where
      "\<not> w_fails (world g) AtCommit"
      "repository_upsert orgId (w_now (world g)) (w_newId (world g)) g db = Inr (db1, r)"
      "snd (getPackageJsonContent (w_response (world g))) = 404"
      "\<And>e. processRepo P orgId world g (db, e) =
         (repository_update (r_id r) False (packageJson_deleteMany (r_id r) db1),
          countNoPackageJson g e)"
  | (other) db1 r where
      "\<not> w_fails (world g) AtCommit"
      "repository_upsert orgId (w_now (world g)) (w_newId (world g)) g db = Inr (db1, r)"
      "\<not> found (getPackageJsonContent (w_response (world g)))"
      "snd (getPackageJsonContent (w_response (world g))) \<noteq> 404"
      "\<And>e. processRepo P orgId world g (db, e) =
         (db1, countErrorStatus g (snd (getPackageJsonContent (w_response (world g)))) e)"
proof (cases rule: txBody_cases[of P orgId "world g" g db])
  case (threw err)
  then show ?thesis using that(1)[of err]
    by (simp add: processRepo_def prisma_transaction_def)
next
  case (found db1 r pkg c)
  show ?thesis
  proof (cases "w_fails (world g) AtCommit")
    case True
    then show ?thesis using found(6) that(2)[of "countProcessed g"]
      by (simp add: processRepo_def prisma_transaction_def)
  next
    case False
    then show ?thesis using found that(3)[of db1 r c pkg]
      by (simp add: processRepo_def prisma_transaction_def)
  qed
next
  case (notFound db1 r)
  show ?thesis
  proof (cases "w_fails (world g) AtCommit")
    case True
    then show ?thesis using notFound(3) that(2)[of "countNoPackageJson g"]
      by (simp add: processRepo_def prisma_transaction_def)
  next
    case False
    then show ?thesis using notFound that(4)[of db1 r]
      by (simp add: processRepo_def prisma_transaction_def)
  qed
next
  case (other db1 r)
  show ?thesis
  proof (cases "w_fails (world g) AtCommit")
    case True
    then show ?thesis using other(4)
        that(2)[of "countErrorStatus g (snd (getPackageJsonContent (w_response (world g))))"]
      by (auto simp add: processRepo_def prisma_transaction_def)
  next
    case False
    then show ?thesis using other that(5)[of db1 r]
      by (simp add: processRepo_def prisma_transaction_def)
  qed
qed

lemmas count_defs = countProcessed_def countNoPackageJson_def countErrorStatus_def caught_def

lemma processRepo_timeline: "timeline (snd (processRepo P orgId w g s)) = timeline (snd s)"
proof -
  obtain db e where s: "s = (db, e)" by (cases s)
  show ?thesis unfolding s
    by (cases rule: processRepo_cases[of P orgId w g db]) (auto simp: count_defs)
qed

lemma processRepo_pace:
  "processRepo P orgId w g (pace p s) = pace p (processRepo P orgId w g s)"
proof -
  obtain db e where s: "s = (db, e)" by (cases s)
  show ?thesis unfolding s
    by (cases rule: processRepo_cases[of P orgId w g db]) (auto simp: count_defs pace_def)
qed

lemma processRepo_counters_commit:
  "\<not> w_fails (w g) AtCommit \<Longrightarrow>
   successCount (snd (processRepo P orgId w g s)) + noPackageJsonCount (snd (processRepo P orgId w g s))
     + errorCount (snd (processRepo P orgId w g s))
   = Suc (successCount (snd s) + noPackageJsonCount (snd s) + errorCount (snd s))"
proof -
  obtain db e where s: "s = (db, e)" by (cases s)
  assume "\<not> w_fails (w g) AtCommit"
  then show ?thesis unfolding s
    by (cases rule: processRepo_cases[of P orgId w g db]) (auto simp: count_defs)
qed

section \<open>Batching and pacing\<close>

text \<open>
  The specification's reading of the loop: the listing cut into consecutive batches of
  \<open>n\<close>, and the batches launched one after another with a pause between two of them.
\<close>

function spec_batches :: "nat \<Rightarrow> 'a list \<Rightarrow> 'a list list" where
  "spec_batches n xs = (if n = 0 \<or> xs = [] then [] else take n xs # spec_batches n (drop n xs))"
  by pat_completeness auto
termination
  by (relation "measure (\<lambda>(n, xs). length xs)") auto

declare spec_batches.simps [simp del]

text \<open>
  The events of a run, given its batches and for each batch the order in which its
  units of work settle: the units of a batch are all started before any of them
  settles, all of them settle before the pause and the next batch, and there is one
  pause between two batches. \<open>spec_pacing\<close> is the run in which every batch
  settles in its own order.
\<close>

fun spec_trace :: "(githubRepo list \<times> githubRepo list) list \<Rightarrow> pacing list" where
  "spec_trace [] = []"
| "spec_trace [(b, order)] = Batch b # map Started b @ map Finished order"
| "spec_trace ((b, order) # x # xs) =
     Batch b # map Started b @ map Finished order @
     Wait DELAY_BETWEEN_BATCHES # spec_trace (x # xs)"

definition spec_pacing :: "githubRepo list list \<Rightarrow> pacing list" where
  "spec_pacing bs = spec_trace (map (\<lambda>b. (b, b)) bs)"

text \<open>\<open>arrangement order pending\<close>: the list \<open>order\<close> takes every element of \<open>pending\<close> once.\<close>

fun arrangement :: "'a list \<Rightarrow> 'a list \<Rightarrow> bool" where
  "arrangement [] pending \<longleftrightarrow> pending = []"
| "arrangement (g # order) pending \<longleftrightarrow> g \<in> set pending \<and> arrangement order (remove1 g pending)"

lemma pace_paces: "pace p s = paces [p] s"
  by (simp add: pace_def paces_def)

lemma paces_paces: "paces ps (paces qs s) = paces (qs @ ps) s"
  by (simp add: paces_def)

lemma paces_Nil: "paces [] s = s"
  by (simp add: paces_def)

lemma processRepo_paces:
  "processRepo P orgId w g (paces ps s) = paces ps (processRepo P orgId w g s)"
proof -
  obtain db e where s: "s = (db, e)" by (cases s)
  show ?thesis unfolding s
    by (cases rule: processRepo_cases[of P orgId w g db]) (auto simp: count_defs paces_def)
qed

lemma batchPromises_paces:
  "batchPromises P orgId w xs (paces ps s) = paces ps (batchPromises P orgId w xs s)"
  unfolding batchPromises_def
  by (induction xs arbitrary: s) (simp_all add: processRepo_paces)

lemma batchPromises_append:
  "batchPromises P orgId w (xs @ ys) s = batchPromises P orgId w ys (batchPromises P orgId w xs s)"
  by (simp add: batchPromises_def)

lemma spec_trace_Cons:
  "spec_trace ((b, order) # xs) =
     Batch b # map Started b @ map Finished order @
     (if xs = [] then [] else Wait DELAY_BETWEEN_BATCHES # spec_trace xs)"
  by (cases xs) simp_all

lemma spec_pacing_Cons:
  "spec_pacing (b # bs) =
     Batch b # map Started b @ map Finished b @
     (if bs = [] then [] else Wait DELAY_BETWEEN_BATCHES # spec_pacing bs)"
  by (simp add: spec_pacing_def spec_trace_Cons)

lemma spec_pacing_Nil [simp]: "spec_pacing [] = []"
  by (simp add: spec_pacing_def)

lemma allSettled_paces:
  "allSettled P orgId w batch s = paces (map Finished batch) (batchPromises P orgId w batch s)"
proof (induction batch arbitrary: s)
  case Nil
  then show ?case by (simp add: allSettled_def batchPromises_def paces_Nil)
next
  case (Cons g batch)
  have "allSettled P orgId w (g # batch) s =
      allSettled P orgId w batch (pace (Finished g) (processRepo P orgId w g s))"
    by (simp add: allSettled_def)
  also have "\<dots> = paces (map Finished batch)
      (batchPromises P orgId w batch (paces [Finished g] (processRepo P orgId w g s)))"
    by (simp add: Cons.IH pace_paces)
  also have "\<dots> = paces (map Finished (g # batch))
      (batchPromises P orgId w batch (processRepo P orgId w g s))"
    by (simp add: batchPromises_paces paces_paces)
  also have "batchPromises P orgId w batch (processRepo P orgId w g s) =
      batchPromises P orgId w (g # batch) s"
    by (simp add: batchPromises_def)
  finally show ?case .
qed

lemma spec_batches_Nil [simp]: "spec_batches n [] = []"
  by (subst spec_batches.simps) simp

lemma spec_batches_Nil_iff: "0 < n \<Longrightarrow> spec_batches n xs = [] \<longleftrightarrow> xs = []"
  by (subst spec_batches.simps) simp

lemma syncLoop_paces:
  "syncLoop P orgId w allRepos i s =
     paces (spec_pacing (spec_batches BATCH_SIZE (drop i allRepos)))
       (batchPromises P orgId w (drop i allRepos) s)"
proof (induction P orgId w allRepos i s rule: syncLoop.induct)
  case (1 P orgId w allRepos i s)
  show ?case
  proof (cases "i < length allRepos")
    case False
    then show ?thesis
      by (subst syncLoop.simps) (simp add: paces_Nil batchPromises_def)
  next
    case True
    define batch where "batch = slice allRepos i (i + BATCH_SIZE)"
    define rest where "rest = drop (i + BATCH_SIZE) allRepos"
    have batch: "batch = take BATCH_SIZE (drop i allRepos)"
      by (simp add: batch_def slice_def)
    have rest: "rest = drop BATCH_SIZE (drop i allRepos)"
      by (simp add: rest_def add.commute)
    have split: "drop i allRepos = batch @ rest"
      unfolding batch rest by (simp only: append_take_drop_id)
    have ne: "drop i allRepos \<noteq> []" using True by simp
    have sb: "spec_batches BATCH_SIZE (drop i allRepos) = batch # spec_batches BATCH_SIZE rest"
      using ne by (subst spec_batches.simps) (simp add: batch rest BATCH_SIZE_def)
    have more: "i + BATCH_SIZE < length allRepos \<longleftrightarrow> spec_batches BATCH_SIZE rest \<noteq> []"
      by (auto simp add: spec_batches_Nil_iff BATCH_SIZE_def rest_def)
    let ?s1 = "allSettled P orgId w batch (map_async batch (pace (Batch batch) s))"
    let ?s2 = "if i + BATCH_SIZE < length allRepos then pace (Wait DELAY_BETWEEN_BATCHES) ?s1 else ?s1"
    have step: "syncLoop P orgId w allRepos i s = syncLoop P orgId w allRepos (i + BATCH_SIZE) ?s2"
      using True by (subst syncLoop.simps) (simp add: Let_def batch_def)
    have IH: "syncLoop P orgId w allRepos (i + BATCH_SIZE) ?s2 =
        paces (spec_pacing (spec_batches BATCH_SIZE rest)) (batchPromises P orgId w rest ?s2)"
      using "1.IH"[OF True batch_def refl refl] by (simp add: rest_def batch_def)
    have sp: "spec_pacing (spec_batches BATCH_SIZE (drop i allRepos)) =
        Batch batch # map Started batch @ map Finished batch @
          (if i + BATCH_SIZE < length allRepos
           then Wait DELAY_BETWEEN_BATCHES # spec_pacing (spec_batches BATCH_SIZE rest)
           else [])"
      unfolding sb spec_pacing_Cons using more by simp
    have bp: "batchPromises P orgId w (drop i allRepos) s =
        batchPromises P orgId w rest (batchPromises P orgId w batch s)"
      unfolding split batchPromises_append ..
    show ?thesis
      unfolding step IH sp bp
      using more
      by (auto simp add: batchPromises_paces pace_paces paces_paces allSettled_paces map_async_def)
  qed
qed


lemma concat_spec_batches: "0 < n \<Longrightarrow> concat (spec_batches n xs) = xs"
proof (induction n xs rule: spec_batches.induct)
  case (1 n xs)
  show ?case
  proof (cases "xs = []")
    case True
    then show ?thesis by simp
  next
    case False
    then show ?thesis using 1 by (subst spec_batches.simps) simp
  qed
qed

lemma length_spec_batches:
  "0 < n \<Longrightarrow> map length (spec_batches n xs) =
     replicate (length xs div n) n @ (if length xs mod n = 0 then [] else [length xs mod n])"
proof (induction n xs rule: spec_batches.induct)
  case (1 n xs)
  show ?case
  proof (cases "xs = []")
    case True
    then show ?thesis by simp
  next
    case False
    have unfold: "spec_batches n xs = take n xs # spec_batches n (drop n xs)"
      using False "1.prems" by (subst spec_batches.simps) simp
    have IH: "map length (spec_batches n (drop n xs)) =
        replicate ((length xs - n) div n) n @
          (if (length xs - n) mod n = 0 then [] else [(length xs - n) mod n])"
      using "1.IH" False "1.prems" by simp
    show ?thesis
    proof (cases "n \<le> length xs")
      case True
      have d: "length xs div n = Suc ((length xs - n) div n)"
        using True "1.prems" by (simp add: le_div_geq)
      have m: "length xs mod n = (length xs - n) mod n"
        using True by (simp add: le_mod_geq)
      show ?thesis unfolding unfold using True IH by (simp add: d m)
    next
      case short: False
      then have "drop n xs = []" by simp
      then show ?thesis unfolding unfold using short False by simp
    qed
  qed
qed

lemma batchPromises_spec_batches:
  "0 < n \<Longrightarrow> foldl (\<lambda>s b. batchPromises P orgId w b s) s (spec_batches n xs) = batchPromises P orgId w xs s"
proof (induction n xs arbitrary: s rule: spec_batches.induct)
  case (1 n xs)
  show ?case
  proof (cases "xs = []")
    case True
    then show ?thesis by (simp add: batchPromises_def)
  next
    case False
    have unfold: "spec_batches n xs = take n xs # spec_batches n (drop n xs)"
      using False "1.prems" by (subst spec_batches.simps) simp
    have "batchPromises P orgId w xs s =
        batchPromises P orgId w (drop n xs) (batchPromises P orgId w (take n xs) s)"
      using batchPromises_append[of P orgId w "take n xs" "drop n xs" s] by simp
    then show ?thesis unfolding unfold using "1.IH" False "1.prems" by simp
  qed
qed

fun isWait :: "pacing \<Rightarrow> bool" where
  "isWait (Wait ms) = True"
| "isWait (Batch b) = False"
| "isWait (Started g) = False"
| "isWait (Finished g) = False"

lemma waits_spec_trace: "length (filter isWait (spec_trace sched)) = length sched - 1"
  by (induction sched rule: spec_trace.induct) simp_all

lemma batches_spec_trace: "[b. Batch b \<leftarrow> spec_trace sched] = map fst sched"
  by (induction sched rule: spec_trace.induct) simp_all


lemma syncOrganizationRepos_complete:
  assumes "organization_upsert (orgUpsertFails W) (orgNewId W) orgName db = Inr (db1, organization)"
    and "listForOrg W = Some allRepos"
  shows "syncOrganizationRepos P W orgName db =
     (let s = paces (spec_pacing (spec_batches BATCH_SIZE allRepos))
                (batchPromises P (o_id organization) (repoWorldOf W) allRepos (db1, engine0))
      in (syncComplete (snd s), fst s, snd s))"
  using assms by (simp add: syncOrganizationRepos_def syncLoop_paces)

lemma batchPromises_timeline:
  "timeline (snd (batchPromises P orgId w xs s)) = timeline (snd s)"
  unfolding batchPromises_def
  by (induction xs arbitrary: s) (simp_all add: processRepo_timeline)

section \<open>Every schedule of the batches\<close>

lemma step_launch:
  "i < length allRepos \<Longrightarrow>
   step P orgId w allRepos (Head i, s)
     (Awaiting i (slice allRepos i (i + BATCH_SIZE)),
      map_async (slice allRepos i (i + BATCH_SIZE))
        (pace (Batch (slice allRepos i (i + BATCH_SIZE))) s))"
  by (simp add: step_def)

lemma step_settle:
  "g \<in> set pending \<Longrightarrow>
   step P orgId w allRepos (Awaiting i pending, s)
     (Awaiting i (remove1 g pending), pace (Finished g) (processRepo P orgId w g s))"
  by (cases pending) (auto simp: step_def)

lemma step_resume:
  "step P orgId w allRepos (Awaiting i [], s)
     (Head (i + BATCH_SIZE),
      if i + BATCH_SIZE < length allRepos then pace (Wait DELAY_BETWEEN_BATCHES) s else s)"
  by (simp add: step_def)

lemma step_cases:
  assumes "step P orgId w allRepos (c, s) z"
  obtains (launch) i where "c = Head i" "i < length allRepos"
      "z = (Awaiting i (slice allRepos i (i + BATCH_SIZE)),
            map_async (slice allRepos i (i + BATCH_SIZE))
              (pace (Batch (slice allRepos i (i + BATCH_SIZE))) s))"
  | (settle) i pending g where "c = Awaiting i pending" "g \<in> set pending"
      "z = (Awaiting i (remove1 g pending), pace (Finished g) (processRepo P orgId w g s))"
  | (resume) i where "c = Awaiting i []"
      "z = (Head (i + BATCH_SIZE),
            if i + BATCH_SIZE < length allRepos then pace (Wait DELAY_BETWEEN_BATCHES) s else s)"
proof (cases c)
  case (Head i)
  then show ?thesis using assms launch by (auto simp: step_def split: if_splits)
next
  case (Awaiting i pending)
  show ?thesis
  proof (cases pending)
    case Nil
    then show ?thesis using assms Awaiting resume by (simp add: step_def)
  next
    case (Cons p ps)
    have "z \<in> (\<lambda>g. (Awaiting i (remove1 g (p # ps)),
                     pace (Finished g) (processRepo P orgId w g s))) ` set (p # ps)"
      using assms unfolding step_def Awaiting Cons by (simp only: successors.simps set_map)
    then obtain g where "g \<in> set pending"
      "z = (Awaiting i (remove1 g pending), pace (Finished g) (processRepo P orgId w g s))"
      unfolding Cons by blast
    then show ?thesis using settle Awaiting by blast
  qed
qed

lemma spec_batches_drop_Cons:
  "i < length allRepos \<Longrightarrow>
   spec_batches BATCH_SIZE (drop i allRepos) =
     slice allRepos i (i + BATCH_SIZE) # spec_batches BATCH_SIZE (drop (i + BATCH_SIZE) allRepos)"
  by (subst spec_batches.simps) (simp add: slice_def BATCH_SIZE_def add.commute)

lemma spec_batches_drop_Nil:
  "\<not> i < length allRepos \<Longrightarrow> spec_batches BATCH_SIZE (drop i allRepos) = []"
  by simp

lemma spec_batches_drop_Nil_iff:
  "spec_batches BATCH_SIZE (drop i allRepos) = [] \<longleftrightarrow> \<not> i < length allRepos"
  by (auto simp: spec_batches_Nil_iff BATCH_SIZE_def)

lemma batchPromises_Cons:
  "batchPromises P orgId w (g # xs) s = batchPromises P orgId w xs (processRepo P orgId w g s)"
  by (simp add: batchPromises_def)

lemma batchPromises_Nil [simp]: "batchPromises P orgId w [] s = s"
  by (simp add: batchPromises_def)

lemma settle_all:
  "arrangement order pending \<Longrightarrow>
   steps P orgId w allRepos (Awaiting i pending, s)
     (Awaiting i [], paces (map Finished order) (batchPromises P orgId w order s))"
proof (induction order arbitrary: pending s)
  case Nil
  then show ?case by (simp add: steps_def paces_Nil)
next
  case (Cons g order)
  have g: "g \<in> set pending" and rest: "arrangement order (remove1 g pending)"
    using Cons.prems by simp_all
  have first: "step P orgId w allRepos (Awaiting i pending, s)
      (Awaiting i (remove1 g pending), pace (Finished g) (processRepo P orgId w g s))"
    by (rule step_settle[OF g])
  have then_: "steps P orgId w allRepos
      (Awaiting i (remove1 g pending), pace (Finished g) (processRepo P orgId w g s))
      (Awaiting i [], paces (map Finished order)
         (batchPromises P orgId w order (pace (Finished g) (processRepo P orgId w g s))))"
    by (rule Cons.IH[OF rest])
  have eq: "paces (map Finished order)
         (batchPromises P orgId w order (pace (Finished g) (processRepo P orgId w g s))) =
      paces (map Finished (g # order)) (batchPromises P orgId w (g # order) s)"
    by (simp add: pace_paces batchPromises_paces paces_paces batchPromises_Cons)
  show ?case
    using first then_ unfolding eq steps_def by (rule converse_rtranclp_into_rtranclp)
qed

lemma steps_schedule:
  assumes "map fst sched = spec_batches BATCH_SIZE (drop i allRepos)"
    and "list_all (\<lambda>(b, order). arrangement order b) sched"
  shows "steps P orgId w allRepos (Head i, s)
     (Head (i + BATCH_SIZE * length sched),
      paces (spec_trace sched) (batchPromises P orgId w (concat (map snd sched)) s))"
  using assms
proof (induction sched arbitrary: i s)
  case Nil
  then show ?case by (simp add: steps_def paces_Nil)
next
  case (Cons x sched)
  obtain b order where x: "x = (b, order)" by (cases x)
  have ne: "spec_batches BATCH_SIZE (drop i allRepos) \<noteq> []" using Cons.prems(1) by auto
  then have i: "i < length allRepos" using spec_batches_drop_Nil_iff by blast
  have b: "b = slice allRepos i (i + BATCH_SIZE)"
    and rest: "map fst sched = spec_batches BATCH_SIZE (drop (i + BATCH_SIZE) allRepos)"
    using Cons.prems(1) unfolding spec_batches_drop_Cons[OF i] x by simp_all
  have arr: "arrangement order b" and arrs: "list_all (\<lambda>(b, order). arrangement order b) sched"
    using Cons.prems(2) x by simp_all
  have more: "i + BATCH_SIZE < length allRepos \<longleftrightarrow> sched \<noteq> []"
    using rest spec_batches_drop_Nil_iff[of "i + BATCH_SIZE" allRepos] by (cases sched) auto
  let ?s1 = "map_async b (pace (Batch b) s)"
  let ?s2 = "paces (map Finished order) (batchPromises P orgId w order ?s1)"
  let ?s3 = "if i + BATCH_SIZE < length allRepos then pace (Wait DELAY_BETWEEN_BATCHES) ?s2 else ?s2"
  have 1: "step P orgId w allRepos (Head i, s) (Awaiting i b, ?s1)"
    unfolding b by (rule step_launch[OF i])
  have 2: "steps P orgId w allRepos (Awaiting i b, ?s1) (Awaiting i [], ?s2)"
    by (rule settle_all[OF arr])
  have 3: "step P orgId w allRepos (Awaiting i [], ?s2) (Head (i + BATCH_SIZE), ?s3)"
    by (rule step_resume)
  have 4: "steps P orgId w allRepos (Head (i + BATCH_SIZE), ?s3)
      (Head (i + BATCH_SIZE + BATCH_SIZE * length sched),
       paces (spec_trace sched) (batchPromises P orgId w (concat (map snd sched)) ?s3))"
    by (rule Cons.IH[OF rest arrs])
  have eq: "paces (spec_trace sched) (batchPromises P orgId w (concat (map snd sched)) ?s3) =
      paces (spec_trace (x # sched)) (batchPromises P orgId w (concat (map snd (x # sched))) s)"
    unfolding x spec_trace_Cons using more
    by (simp add: map_async_def pace_paces batchPromises_paces paces_paces batchPromises_append)
  have idx: "i + BATCH_SIZE + BATCH_SIZE * length sched = i + BATCH_SIZE * length (x # sched)"
    by simp
  have "steps P orgId w allRepos (Head i, s)
      (Head (i + BATCH_SIZE + BATCH_SIZE * length sched),
       paces (spec_trace sched) (batchPromises P orgId w (concat (map snd sched)) ?s3))"
    using 1 2 3 4 unfolding steps_def by (meson converse_rtranclp_into_rtranclp rtranclp_trans)
  then show ?case unfolding eq idx .
qed

definition scheduled ::
  "(string \<Rightarrow> json option) \<Rightarrow> nat \<Rightarrow> (githubRepo \<Rightarrow> repoWorld) \<Rightarrow> githubRepo list \<Rightarrow> nat \<Rightarrow>
   control \<times> database \<times> engine \<Rightarrow> database \<times> engine \<Rightarrow> bool" where
  "scheduled P orgId w allRepos j x s' =
     (case fst x of
        Head i \<Rightarrow>
          (\<exists>sched. map fst sched = spec_batches BATCH_SIZE (drop i allRepos) \<and>
             list_all (\<lambda>(b, order). arrangement order b) sched \<and>
             j = i + BATCH_SIZE * length sched \<and>
             s' = paces (spec_trace sched)
                    (batchPromises P orgId w (concat (map snd sched)) (snd x)))
      | Awaiting i pending \<Rightarrow>
          (\<exists>order sched. arrangement order pending \<and>
             map fst sched = spec_batches BATCH_SIZE (drop (i + BATCH_SIZE) allRepos) \<and>
             list_all (\<lambda>(b, order). arrangement order b) sched \<and>
             j = i + BATCH_SIZE + BATCH_SIZE * length sched \<and>
             s' = paces (map Finished order @
                         (if sched = [] then [] else Wait DELAY_BETWEEN_BATCHES # spec_trace sched))
                    (batchPromises P orgId w (order @ concat (map snd sched)) (snd x))))"

lemma steps_scheduled:
  assumes "steps P orgId w allRepos x (Head j, s')" and "length allRepos \<le> j"
  shows "scheduled P orgId w allRepos j x s'"
  using assms(1) unfolding steps_def
proof (induction rule: converse_rtranclp_induct)
  case base
  have "spec_batches BATCH_SIZE (drop j allRepos) = []" using assms(2) by simp
  then show ?case
    by (simp add: scheduled_def paces_Nil)
next
  case (step y z)
  obtain c s where y: "y = (c, s)" by (cases y)
  from step(1)[unfolded y] show ?case
  proof (cases rule: step_cases)
    case (launch i)
    let ?b = "slice allRepos i (i + BATCH_SIZE)"
    from step(3) launch(3) obtain order sched where
      arr: "arrangement order ?b"
      and bs: "map fst sched = spec_batches BATCH_SIZE (drop (i + BATCH_SIZE) allRepos)"
      and arrs: "list_all (\<lambda>(b, order). arrangement order b) sched"
      and j: "j = i + BATCH_SIZE + BATCH_SIZE * length sched"
      and s': "s' = paces (map Finished order @
                         (if sched = [] then [] else Wait DELAY_BETWEEN_BATCHES # spec_trace sched))
                    (batchPromises P orgId w (order @ concat (map snd sched))
                       (map_async ?b (pace (Batch ?b) s)))"
      by (auto simp: scheduled_def)
    let ?sched = "(?b, order) # sched"
    have 1: "map fst ?sched = spec_batches BATCH_SIZE (drop i allRepos)"
      unfolding spec_batches_drop_Cons[OF launch(2)] using bs by simp
    have 2: "list_all (\<lambda>(b, order). arrangement order b) ?sched" using arr arrs by simp
    have 3: "j = i + BATCH_SIZE * length ?sched" using j by simp
    have 4: "s' = paces (spec_trace ?sched) (batchPromises P orgId w (concat (map snd ?sched)) s)"
      unfolding s' spec_trace_Cons
      by (simp add: map_async_def pace_paces batchPromises_paces paces_paces)
    show ?thesis
      unfolding y scheduled_def launch(1)
      by (simp only: fst_conv snd_conv control.case)
         (rule exI[of _ "?sched"], intro conjI 1 2 3 4)
  next
    case (settle i pending g)
    from step(3) settle(3) obtain order sched where
      arr: "arrangement order (remove1 g pending)"
      and bs: "map fst sched = spec_batches BATCH_SIZE (drop (i + BATCH_SIZE) allRepos)"
      and arrs: "list_all (\<lambda>(b, order). arrangement order b) sched"
      and j: "j = i + BATCH_SIZE + BATCH_SIZE * length sched"
      and s': "s' = paces (map Finished order @
                         (if sched = [] then [] else Wait DELAY_BETWEEN_BATCHES # spec_trace sched))
                    (batchPromises P orgId w (order @ concat (map snd sched))
                       (pace (Finished g) (processRepo P orgId w g s)))"
      by (auto simp: scheduled_def)
    have 1: "arrangement (g # order) pending" using settle(2) arr by simp
    have 4: "s' = paces (map Finished (g # order) @
                         (if sched = [] then [] else Wait DELAY_BETWEEN_BATCHES # spec_trace sched))
                    (batchPromises P orgId w ((g # order) @ concat (map snd sched)) s)"
      unfolding s'
      by (simp add: pace_paces batchPromises_paces paces_paces batchPromises_Cons)
    show ?thesis
      unfolding y scheduled_def settle(1)
      by (simp only: fst_conv snd_conv control.case)
         (rule exI[of _ "g # order"], rule exI[of _ sched], intro conjI 1 bs arrs j 4)
  next
    case (resume i)
    from step(3) resume(2) obtain sched where
      bs: "map fst sched = spec_batches BATCH_SIZE (drop (i + BATCH_SIZE) allRepos)"
      and arrs: "list_all (\<lambda>(b, order). arrangement order b) sched"
      and j: "j = i + BATCH_SIZE + BATCH_SIZE * length sched"
      and s': "s' = paces (spec_trace sched)
                    (batchPromises P orgId w (concat (map snd sched))
                       (if i + BATCH_SIZE < length allRepos
                        then pace (Wait DELAY_BETWEEN_BATCHES) s else s))"
      by (auto simp: scheduled_def)
    have more: "i + BATCH_SIZE < length allRepos \<longleftrightarrow> sched \<noteq> []"
      using bs spec_batches_drop_Nil_iff[of "i + BATCH_SIZE" allRepos] by (cases sched) auto
    have 1: "arrangement [] ([] :: githubRepo list)" by simp
    have 4: "s' = paces (map Finished [] @
                         (if sched = [] then [] else Wait DELAY_BETWEEN_BATCHES # spec_trace sched))
                    (batchPromises P orgId w ([] @ concat (map snd sched)) s)"
      unfolding s' using more
      by (auto simp add: pace_paces batchPromises_paces paces_paces paces_Nil)
    show ?thesis
      unfolding y scheduled_def resume(1)
      by (simp only: fst_conv snd_conv control.case)
         (rule exI[of _ "[]"], rule exI[of _ sched], intro conjI 1 bs arrs j 4)
  qed
qed

lemma arrangement_refl: "arrangement b b"
  by (induction b) simp_all

lemma spec_batches_cover:
  "length allRepos \<le> BATCH_SIZE * length (spec_batches BATCH_SIZE allRepos)"
proof -
  have "length (spec_batches BATCH_SIZE allRepos) =
      length (map length (spec_batches BATCH_SIZE allRepos))" by simp
  also have "\<dots> = length allRepos div BATCH_SIZE +
      (if length allRepos mod BATCH_SIZE = 0 then 0 else 1)"
    by (subst length_spec_batches) (simp_all add: BATCH_SIZE_def)
  finally show ?thesis by (simp add: BATCH_SIZE_def) presburger
qed

section \<open>The has-manifest invariant\<close>

text \<open>
  A repository row's flag says whether a package.json row exists for it; every
  package.json row belongs to a repository row.
\<close>

definition hasManifestRow :: "database \<Rightarrow> nat \<Rightarrow> bool" where
  "hasManifestRow db i = list_ex (\<lambda>p. pj_repositoryId p = i) (packageJsons db)"

definition has_manifest_invariant :: "database \<Rightarrow> bool" where
  "has_manifest_invariant db =
     list_all (\<lambda>r. r_hasPackageJson r = hasManifestRow db (r_id r)) (repositories db)"

definition foreign_keys_ok :: "database \<Rightarrow> bool" where
  "foreign_keys_ok db =
     list_all (\<lambda>p. list_ex (\<lambda>r. r_id r = pj_repositoryId p) (repositories db)) (packageJsons db)"

lemma hasManifestRow_iff: "hasManifestRow db i \<longleftrightarrow> i \<in> pj_repositoryId ` set (packageJsons db)"
  by (auto simp: hasManifestRow_def list_ex_iff)

lemma inv_iff:
  "has_manifest_invariant db \<longleftrightarrow>
     (\<forall>r \<in> set (repositories db). r_hasPackageJson r \<longleftrightarrow> r_id r \<in> pj_repositoryId ` set (packageJsons db))"
  by (simp add: has_manifest_invariant_def list_all_iff hasManifestRow_iff)

lemma fk_iff:
  "foreign_keys_ok db \<longleftrightarrow>
     pj_repositoryId ` set (packageJsons db) \<subseteq> r_id ` set (repositories db)"
  unfolding foreign_keys_ok_def list_all_iff list_ex_iff
  by (rule iffI; force)

lemma map_replace_ids:
  "r_id r = i \<Longrightarrow> r_id ` set (map (\<lambda>x. if r_id x = i then r else x) xs) = r_id ` set xs"
  by (induction xs) auto

lemma commonRepoData_keeps [simp]:
  "r_id (commonRepoData orgId now g r) = r_id r"
  "r_hasPackageJson (commonRepoData orgId now g r) = r_hasPackageJson r"
  "r_fullName (commonRepoData orgId now g r) = gh_full_name g"
  "r_githubId (commonRepoData orgId now g r) = Some (gh_id g)"
  "r_lastFetchedAt (commonRepoData orgId now g r) = Some now"
  by (simp_all add: commonRepoData_def)

lemma repository_upsert_cases:
  assumes "repository_upsert orgId now newId g db = Inr (db1, r)"
  obtains (updated) old where
      "find (\<lambda>r. r_githubId r = Some (gh_id g)) (repositories db) = Some old"
      "\<not> list_ex (\<lambda>r. r_id r \<noteq> r_id old \<and> r_fullName r = gh_full_name g) (repositories db)"
      "r = commonRepoData orgId now g old"
      "db1 = db\<lparr>repositories := map (\<lambda>x. if r_id x = r_id old then r else x) (repositories db)\<rparr>"
  | (created)
      "find (\<lambda>r. r_githubId r = Some (gh_id g)) (repositories db) = None"
      "\<not> list_ex (\<lambda>r. r_id r = newId \<or> r_fullName r = gh_full_name g) (repositories db)"
      "r = commonRepoData orgId now g (blankRepository newId)"
      "db1 = db\<lparr>repositories := repositories db @ [r]\<rparr>"
  using assms
  by (auto simp: repository_upsert_def Let_def split: option.splits if_splits)

lemma repository_upsert_packageJsons:
  "repository_upsert orgId now newId g db = Inr (db1, r) \<Longrightarrow> packageJsons db1 = packageJsons db"
  by (erule repository_upsert_cases) simp_all

lemma repository_upsert_member:
  assumes "repository_upsert orgId now newId g db = Inr (db1, r)"
  shows "r \<in> set (repositories db1)"
  using assms
proof (cases rule: repository_upsert_cases)
  case (updated old)
  then have "old \<in> set (repositories db)" by (auto simp: find_Some_iff)
  then show ?thesis using updated by (auto simp: image_iff)
next
  case created
  then show ?thesis by simp
qed

lemma repository_upsert_invariant:
  assumes up: "repository_upsert orgId now newId g db = Inr (db1, r)"
    and inv: "has_manifest_invariant db" and fk: "foreign_keys_ok db"
  shows "has_manifest_invariant db1 \<and> foreign_keys_ok db1"
  using up
proof (cases rule: repository_upsert_cases)
  case (updated old)
  have old: "old \<in> set (repositories db)" using updated(1) by (auto simp: find_Some_iff)
  have ids: "r_id ` set (repositories db1) = r_id ` set (repositories db)"
    using updated(3,4) map_replace_ids[of r "r_id old" "repositories db"]
    by simp
  show ?thesis
    using inv fk old updated(3,4) unfolding inv_iff fk_iff ids
    by (auto simp: image_iff)
next
  case created
  have "newId \<notin> r_id ` set (repositories db)" using created(2) by (auto simp: list_ex_iff)
  then have "newId \<notin> pj_repositoryId ` set (packageJsons db)" using fk unfolding fk_iff by blast
  then show ?thesis
    using inv fk created(3,4) unfolding inv_iff fk_iff
    by (auto simp: blankRepository_def hasPackageJson_default_def)
qed


lemma packageJson_upsert_ids:
  "pj_repositoryId ` set (packageJsons (packageJson_upsert i pkg t db)) =
     insert i (pj_repositoryId ` set (packageJsons db))"
proof -
  have keep: "pj_repositoryId (packageJsonData pkg t p) = pj_repositoryId p" for p
    by (simp add: packageJsonData_def)
  have "pj_repositoryId ` set (map (\<lambda>p. if pj_repositoryId p = i then packageJsonData pkg t p else p) ps)
      = pj_repositoryId ` set ps" for ps
    by (induction ps) (auto simp: keep)
  then show ?thesis
    by (auto simp: packageJson_upsert_def list_ex_iff keep blankPackageJson_def)
qed

lemma packageJson_upsert_repositories [simp]:
  "repositories (packageJson_upsert i pkg t db) = repositories db"
  by (simp add: packageJson_upsert_def)

lemma packageJson_deleteMany_ids:
  "pj_repositoryId ` set (packageJsons (packageJson_deleteMany i db)) =
     pj_repositoryId ` set (packageJsons db) - {i}"
  by (auto simp: packageJson_deleteMany_def)

lemma packageJson_deleteMany_repositories [simp]:
  "repositories (packageJson_deleteMany i db) = repositories db"
  by (simp add: packageJson_deleteMany_def)

lemma repository_update_packageJsons [simp]:
  "packageJsons (repository_update i flag db) = packageJsons db"
  by (simp add: repository_update_def)

lemma repository_update_ids:
  "r_id ` set (repositories (repository_update i flag db)) = r_id ` set (repositories db)"
proof -
  have "r_id ` set (map (\<lambda>r. if r_id r = i then r\<lparr>r_hasPackageJson := flag\<rparr> else r) rs) = r_id ` set rs"
    for rs :: "repository list"
    by (induction rs) auto
  then show ?thesis by (simp add: repository_update_def)
qed

lemma repository_update_rows:
  "r' \<in> set (repositories (repository_update i flag db)) \<Longrightarrow>
     (r_id r' = i \<and> r_hasPackageJson r' = flag) \<or>
     (r_id r' \<noteq> i \<and> r' \<in> set (repositories db))"
  by (auto simp: repository_update_def)

lemma found_invariant:
  assumes inv: "has_manifest_invariant db1" and fk: "foreign_keys_ok db1"
    and mem: "i \<in> r_id ` set (repositories db1)"
  shows "has_manifest_invariant (repository_update i True (packageJson_upsert i pkg t db1)) \<and>
         foreign_keys_ok (repository_update i True (packageJson_upsert i pkg t db1))"
proof -
  let ?db = "repository_update i True (packageJson_upsert i pkg t db1)"
  have pj: "pj_repositoryId ` set (packageJsons ?db) = insert i (pj_repositoryId ` set (packageJsons db1))"
    by (simp add: packageJson_upsert_ids)
  have ids: "r_id ` set (repositories ?db) = r_id ` set (repositories db1)"
    by (simp add: repository_update_ids)
  have "has_manifest_invariant ?db"
    unfolding inv_iff pj
  proof
    fix r' assume "r' \<in> set (repositories ?db)"
    from repository_update_rows[OF this]
    show "r_hasPackageJson r' \<longleftrightarrow> r_id r' \<in> insert i (pj_repositoryId ` set (packageJsons db1))"
      using inv unfolding inv_iff by auto
  qed
  moreover have "foreign_keys_ok ?db"
    using fk mem unfolding fk_iff pj ids by simp
  ultimately show ?thesis ..
qed

lemma notFound_invariant:
  assumes inv: "has_manifest_invariant db1" and fk: "foreign_keys_ok db1"
  shows "has_manifest_invariant (repository_update i False (packageJson_deleteMany i db1)) \<and>
         foreign_keys_ok (repository_update i False (packageJson_deleteMany i db1))"
proof -
  let ?db = "repository_update i False (packageJson_deleteMany i db1)"
  have pj: "pj_repositoryId ` set (packageJsons ?db) = pj_repositoryId ` set (packageJsons db1) - {i}"
    by (simp add: packageJson_deleteMany_ids)
  have ids: "r_id ` set (repositories ?db) = r_id ` set (repositories db1)"
    by (simp add: repository_update_ids)
  have "has_manifest_invariant ?db"
    unfolding inv_iff pj
  proof
    fix r' assume "r' \<in> set (repositories ?db)"
    from repository_update_rows[OF this]
    show "r_hasPackageJson r' \<longleftrightarrow> r_id r' \<in> pj_repositoryId ` set (packageJsons db1) - {i}"
      using inv unfolding inv_iff by auto
  qed
  moreover have "foreign_keys_ok ?db"
    using fk unfolding fk_iff pj ids by auto
  ultimately show ?thesis ..
qed

lemma processRepo_invariant:
  assumes inv: "has_manifest_invariant (fst s)" and fk: "foreign_keys_ok (fst s)"
  shows "has_manifest_invariant (fst (processRepo P orgId world g s)) \<and>
         foreign_keys_ok (fst (processRepo P orgId world g s))"
proof -
  obtain db e where s: "s = (db, e)" by (cases s)
  have inv': "has_manifest_invariant db" and fk': "foreign_keys_ok db" using inv fk s by simp_all
  show ?thesis
  proof (cases rule: processRepo_cases[of P orgId world g db])
    case (threw err)
    then show ?thesis using inv' fk' by (simp add: s)
  next
    case (commitFailed f)
    then show ?thesis using inv' fk' by (simp add: s)
  next
    case (found db1 r pkg c)
    have "r_id r \<in> r_id ` set (repositories db1)"
      using repository_upsert_member[OF found(2)] by blast
    then show ?thesis
      using found(7) found_invariant repository_upsert_invariant[OF found(2) inv' fk'] by (simp add: s)
  next
    case (notFound db1 r)
    then show ?thesis
      using notFound_invariant repository_upsert_invariant[OF notFound(2) inv' fk'] by (simp add: s)
  next
    case (other db1 r)
    then show ?thesis
      using repository_upsert_invariant[OF other(2) inv' fk'] by (simp add: s)
  qed
qed

lemma batchPromises_invariant:
  "has_manifest_invariant (fst s) \<Longrightarrow> foreign_keys_ok (fst s) \<Longrightarrow>
   has_manifest_invariant (fst (batchPromises P orgId world xs s)) \<and>
   foreign_keys_ok (fst (batchPromises P orgId world xs s))"
  unfolding batchPromises_def
  by (induction xs arbitrary: s) (simp_all add: processRepo_invariant)

section \<open>The three arms of a unit of work, and what the counters count\<close>

lemma processRepo_notFound:
  assumes "repository_upsert orgId (w_now (world g)) (w_newId (world g)) g db = Inr (db1, r)"
    and "snd (getPackageJsonContent (w_response (world g))) = 404"
    and "\<not> w_fails (world g) AtRepositoryUpsert" "\<not> w_fails (world g) AtPackageJsonDeleteMany"
    and "\<not> w_fails (world g) AtRepositoryUpdate" "\<not> w_fails (world g) AtCommit"
  shows "processRepo P orgId world g (db, e) =
     (repository_update (r_id r) False (packageJson_deleteMany (r_id r) db1), countNoPackageJson g e)"
  using assms
  by (simp add: processRepo_def prisma_transaction_def txBody_def onNotFound_def found_def Let_def)

lemma processRepo_other:
  assumes "repository_upsert orgId (w_now (world g)) (w_newId (world g)) g db = Inr (db1, r)"
    and "snd (getPackageJsonContent (w_response (world g))) \<noteq> 200"
    and "snd (getPackageJsonContent (w_response (world g))) \<noteq> 404"
    and "\<not> w_fails (world g) AtRepositoryUpsert"
  shows "processRepo P orgId world g (db, e) =
     (if w_fails (world g) AtCommit
      then (db, caught g PrismaClientError
                  (countErrorStatus g (snd (getPackageJsonContent (w_response (world g)))) e))
      else (db1, countErrorStatus g (snd (getPackageJsonContent (w_response (world g)))) e))"
  using assms
  by (simp add: processRepo_def prisma_transaction_def txBody_def onOtherStatus_def found_def Let_def)

lemma processRepo_found:
  assumes "repository_upsert orgId (w_now (world g)) (w_newId (world g)) g db = Inr (db1, r)"
    and "getPackageJsonContent (w_response (world g)) = (Some c, 200)" "c \<noteq> []"
    and "P c = Some pkg" "pkg \<noteq> JNull"
    and "\<not> w_fails (world g) AtRepositoryUpsert" "\<not> w_fails (world g) AtPackageJsonUpsert"
    and "\<not> w_fails (world g) AtRepositoryUpdate"
  shows "processRepo P orgId world g (db, e) =
     (if w_fails (world g) AtCommit
      then (db, caught g PrismaClientError (countProcessed g e))
      else (repository_update (r_id r) True
              (packageJson_upsert (r_id r) pkg (w_fetchedNow (world g)) db1),
            countProcessed g e))"
  using assms
  by (simp add: processRepo_def prisma_transaction_def txBody_def onFound_def found_def Let_def)


definition flags :: "database \<Rightarrow> (nat \<times> bool) list" where
  "flags db = map (\<lambda>r. (r_id r, r_hasPackageJson r)) (repositories db)"

lemma repository_upsert_flags:
  assumes up: "repository_upsert orgId now newId g db = Inr (db1, r)"
    and pk: "distinct (map r_id (repositories db))"
  shows "flags db1 = flags db \<or> flags db1 = flags db @ [(r_id r, False)]"
  using up
proof (cases rule: repository_upsert_cases)
  case (updated old)
  have old: "old \<in> set (repositories db)" using updated(1) by (auto simp: find_Some_iff)
  have same: "x = old" if "x \<in> set (repositories db)" "r_id x = r_id old" for x
    using that old pk by (auto simp: distinct_map inj_on_def)
  have "map (\<lambda>r. (r_id r, r_hasPackageJson r))
          (map (\<lambda>x. if r_id x = r_id old then r else x) (repositories db)) =
        map (\<lambda>r. (r_id r, r_hasPackageJson r)) (repositories db)"
    unfolding map_map
  proof (rule map_cong[OF refl])
    fix x assume "x \<in> set (repositories db)"
    then show "((\<lambda>r. (r_id r, r_hasPackageJson r)) \<circ> (\<lambda>x. if r_id x = r_id old then r else x)) x
        = (r_id x, r_hasPackageJson x)"
      using same[of x] updated(3) by auto
  qed
  then show ?thesis using updated(4) by (simp add: flags_def)
next
  case created
  then show ?thesis
    by (simp add: flags_def blankRepository_def hasPackageJson_default_def)
qed







definition counted :: "engine \<Rightarrow> nat" where
  "counted e = successCount e + noPackageJsonCount e + errorCount e"

lemma processRepo_counted_bounds:
  "counted (snd s) + 1 \<le> counted (snd (processRepo P orgId world g s)) \<and>
   counted (snd (processRepo P orgId world g s)) \<le> counted (snd s) + 2 \<and>
   (\<not> w_fails (world g) AtCommit \<longrightarrow>
      counted (snd (processRepo P orgId world g s)) = counted (snd s) + 1)"
proof -
  obtain db e where s: "s = (db, e)" by (cases s)
  show ?thesis unfolding s
    by (cases rule: processRepo_cases[of P orgId world g db])
       (auto simp: count_defs counted_def)
qed

lemma batchPromises_counted:
  "counted (snd s) + length xs \<le> counted (snd (batchPromises P orgId world xs s)) \<and>
   counted (snd (batchPromises P orgId world xs s)) \<le> counted (snd s) + 2 * length xs \<and>
   ((\<forall>g \<in> set xs. \<not> w_fails (world g) AtCommit) \<longrightarrow>
      counted (snd (batchPromises P orgId world xs s)) = counted (snd s) + length xs)"
proof (induction xs arbitrary: s)
  case Nil
  then show ?case by (simp add: batchPromises_def)
next
  case (Cons g xs)
  have step: "batchPromises P orgId world (g # xs) s =
      batchPromises P orgId world xs (processRepo P orgId world g s)"
    by (simp add: batchPromises_def)
  show ?case
    unfolding step
    using Cons.IH[of "processRepo P orgId world g s"]
      processRepo_counted_bounds[of s P orgId world g]
    by auto
qed










section \<open>Example inputs\<close>

definition repoN :: "nat \<Rightarrow> githubRepo" where
  "repoN k =
     \<lparr> gh_id = k, gh_name = replicate k CHR ''r'', gh_full_name = ''o/'' @ replicate k CHR ''r'',
       gh_html_url = ''https://h/o/'' @ replicate k CHR ''r'', gh_default_branch = Some ''main'',
       gh_description = None, gh_owner_login = ''o'' \<rparr>"

definition emptyDb :: database where
  "emptyDb = \<lparr> organizations = [], repositories = [], packageJsons = [] \<rparr>"

definition parseBraces :: "string \<Rightarrow> json option" where
  "parseBraces s = (if s = ''{}'' then Some (JObj []) else None)"

definition quietWorld :: "octokitResponse \<Rightarrow> githubRepo \<Rightarrow> repoWorld" where
  "quietWorld resp g =
     \<lparr> w_response = resp, w_now = 1, w_fetchedNow = 2, w_newId = gh_id g + 100,
       w_fails = (\<lambda>p. False) \<rparr>"

definition listing15 :: "githubRepo list" where
  "listing15 = map repoN [1..<16]"

definition world15 :: world where
  "world15 = \<lparr> orgUpsertFails = False, orgNewId = 1, listForOrg = Some listing15,
               repoWorldOf = quietWorld (Rejected (Some 404)) \<rparr>"

section \<open>Claims\<close>

text \<open>
  C5. Whenever the organization row is obtained and the listing arrives, the listing
  is cut into consecutive batches of 10, in order (15 repositories give the batches
  of the first 10 and the last 5). The complete executions of the loop are exactly
  the schedules in which, batch after batch: every unit of work of the batch is
  started before any of them settles, the units of the batch settle in any order
  (they are in flight together), all of them have settled before the loop goes on,
  and one pause of 2000 ms follows every batch but the last. The store, the counters
  and the console at the end are those left by the units of work taken in the order
  in which they settled. The run of \<^verbatim>\<open>syncOrganizationRepos\<close> as a function is
  the schedule in which every batch settles in its own order.
\<close>

theorem C5_batches_and_pacing:
  assumes "organization_upsert (orgUpsertFails W) (orgNewId W) orgName db = Inr (db1, organization)"
    and "listForOrg W = Some allRepos"
  shows "BATCH_SIZE = 10 \<and> DELAY_BETWEEN_BATCHES = 2000 \<and>
     concat (spec_batches BATCH_SIZE allRepos) = allRepos \<and>
     map length (spec_batches BATCH_SIZE allRepos) =
       replicate (length allRepos div 10) 10 @
         (if length allRepos mod 10 = 0 then [] else [length allRepos mod 10]) \<and>
     ((steps P (o_id organization) (repoWorldOf W) allRepos (Head 0, db1, engine0) (Head j, s') \<and>
       length allRepos \<le> j) \<longleftrightarrow>
      (\<exists>sched. map fst sched = spec_batches BATCH_SIZE allRepos \<and>
         list_all (\<lambda>(b, order). arrangement order b) sched \<and>
         j = BATCH_SIZE * length sched \<and>
         s' = paces (spec_trace sched)
                (foldl (\<lambda>s g. processRepo P (o_id organization) (repoWorldOf W) g s) (db1, engine0)
                   (concat (map snd sched))))) \<and>
     snd (syncOrganizationRepos P W orgName db) =
       paces (spec_trace (map (\<lambda>b. (b, b)) (spec_batches BATCH_SIZE allRepos)))
         (foldl (\<lambda>s g. processRepo P (o_id organization) (repoWorldOf W) g s) (db1, engine0) allRepos) \<and>
     steps P (o_id organization) (repoWorldOf W) allRepos (Head 0, db1, engine0)
       (Head (BATCH_SIZE * length (spec_batches BATCH_SIZE allRepos)),
        snd (syncOrganizationRepos P W orgName db)) \<and>
     (length allRepos = 15 \<longrightarrow>
        timeline (snd (snd (syncOrganizationRepos P W orgName db))) =
          [Batch (take 10 allRepos)] @ map Started (take 10 allRepos) @
          map Finished (take 10 allRepos) @ [Wait 2000, Batch (drop 10 allRepos)] @
          map Started (drop 10 allRepos) @ map Finished (drop 10 allRepos))"
proof -
  let ?run = "\<lambda>xs. foldl (\<lambda>s g. processRepo P (o_id organization) (repoWorldOf W) g s) (db1, engine0) xs"
  have bp: "batchPromises P (o_id organization) (repoWorldOf W) xs (db1, engine0) = ?run xs" for xs
    by (simp add: batchPromises_def)
  have out: "snd (syncOrganizationRepos P W orgName db) =
      paces (spec_pacing (spec_batches BATCH_SIZE allRepos)) (?run allRepos)"
    using syncOrganizationRepos_complete[OF assms, of P] unfolding bp by (simp add: Let_def)
  have own: "snd (syncOrganizationRepos P W orgName db) =
       paces (spec_trace (map (\<lambda>b. (b, b)) (spec_batches BATCH_SIZE allRepos))) (?run allRepos)"
    unfolding out spec_pacing_def ..
  have all: "list_all (\<lambda>(b, order). arrangement order b) (map (\<lambda>b. (b, b)) bs)"
    for bs :: "githubRepo list list"
    by (induction bs) (simp_all add: arrangement_refl)
  have reach: "steps P (o_id organization) (repoWorldOf W) allRepos (Head 0, db1, engine0)
       (Head (BATCH_SIZE * length (spec_batches BATCH_SIZE allRepos)),
        snd (syncOrganizationRepos P W orgName db))"
    using steps_schedule[of "map (\<lambda>b. (b, b)) (spec_batches BATCH_SIZE allRepos)" 0 allRepos
        P "o_id organization" "repoWorldOf W" "(db1, engine0)"] all
    unfolding own bp by (simp add: comp_def concat_spec_batches BATCH_SIZE_def)
  have iff: "(steps P (o_id organization) (repoWorldOf W) allRepos (Head 0, db1, engine0) (Head j, s') \<and>
       length allRepos \<le> j) \<longleftrightarrow>
      (\<exists>sched. map fst sched = spec_batches BATCH_SIZE allRepos \<and>
         list_all (\<lambda>(b, order). arrangement order b) sched \<and>
         j = BATCH_SIZE * length sched \<and>
         s' = paces (spec_trace sched) (?run (concat (map snd sched))))"
  proof
    assume "steps P (o_id organization) (repoWorldOf W) allRepos (Head 0, db1, engine0) (Head j, s') \<and>
       length allRepos \<le> j"
    then have "scheduled P (o_id organization) (repoWorldOf W) allRepos j (Head 0, db1, engine0) s'"
      using steps_scheduled by blast
    then show "\<exists>sched. map fst sched = spec_batches BATCH_SIZE allRepos \<and>
         list_all (\<lambda>(b, order). arrangement order b) sched \<and>
         j = BATCH_SIZE * length sched \<and>
         s' = paces (spec_trace sched) (?run (concat (map snd sched)))"
      by (simp add: scheduled_def bp)
  next
    assume "\<exists>sched. map fst sched = spec_batches BATCH_SIZE allRepos \<and>
         list_all (\<lambda>(b, order). arrangement order b) sched \<and>
         j = BATCH_SIZE * length sched \<and>
         s' = paces (spec_trace sched) (?run (concat (map snd sched)))"
    then obtain sched where bs: "map fst sched = spec_batches BATCH_SIZE allRepos"
      and arrs: "list_all (\<lambda>(b, order). arrangement order b) sched"
      and j: "j = BATCH_SIZE * length sched"
      and s': "s' = paces (spec_trace sched) (?run (concat (map snd sched)))"
      by blast
    have bs0: "map fst sched = spec_batches BATCH_SIZE (drop 0 allRepos)" using bs by simp
    have len: "length sched = length (spec_batches BATCH_SIZE allRepos)"
      using bs by (metis length_map)
    have "steps P (o_id organization) (repoWorldOf W) allRepos (Head 0, db1, engine0) (Head j, s')"
      using steps_schedule[OF bs0 arrs, of P "o_id organization" "repoWorldOf W" "(db1, engine0)"]
      unfolding j s' bp by simp
    moreover have "length allRepos \<le> j"
      unfolding j len by (rule spec_batches_cover)
    ultimately show "steps P (o_id organization) (repoWorldOf W) allRepos (Head 0, db1, engine0)
        (Head j, s') \<and> length allRepos \<le> j" ..
  qed
  have tl: "timeline (snd (snd (syncOrganizationRepos P W orgName db))) =
      spec_pacing (spec_batches BATCH_SIZE allRepos)"
    using syncOrganizationRepos_complete[OF assms, of P]
    by (simp add: Let_def paces_def batchPromises_timeline engine0_def)
  have fifteen: "spec_pacing (spec_batches BATCH_SIZE allRepos) =
      [Batch (take 10 allRepos)] @ map Started (take 10 allRepos) @
          map Finished (take 10 allRepos) @ [Wait 2000, Batch (drop 10 allRepos)] @
          map Started (drop 10 allRepos) @ map Finished (drop 10 allRepos)"
    if "length allRepos = 15"
  proof -
    have s1: "spec_batches BATCH_SIZE allRepos =
        take 10 allRepos # spec_batches BATCH_SIZE (drop 10 allRepos)"
      using that by (subst spec_batches.simps) (auto simp: BATCH_SIZE_def)
    have s2: "spec_batches BATCH_SIZE (drop 10 allRepos) =
        take 10 (drop 10 allRepos) # spec_batches BATCH_SIZE (drop 10 (drop 10 allRepos))"
      using that by (subst spec_batches.simps) (auto simp: BATCH_SIZE_def)
    have "take 10 (drop 10 allRepos) = drop 10 allRepos" "drop 10 (drop 10 allRepos) = []"
      using that by simp_all
    then have "spec_batches BATCH_SIZE allRepos = [take 10 allRepos, drop 10 allRepos]"
      unfolding s1 s2 by simp
    then show ?thesis by (simp add: spec_pacing_def DELAY_BETWEEN_BATCHES_def)
  qed
  have sizes: "BATCH_SIZE = 10 \<and> DELAY_BETWEEN_BATCHES = 2000 \<and>
     concat (spec_batches BATCH_SIZE allRepos) = allRepos \<and>
     map length (spec_batches BATCH_SIZE allRepos) =
       replicate (length allRepos div 10) 10 @
         (if length allRepos mod 10 = 0 then [] else [length allRepos mod 10])"
    by (simp add: concat_spec_batches length_spec_batches BATCH_SIZE_def DELAY_BETWEEN_BATCHES_def)
  have last: "length allRepos = 15 \<longrightarrow>
        timeline (snd (snd (syncOrganizationRepos P W orgName db))) =
          [Batch (take 10 allRepos)] @ map Started (take 10 allRepos) @
          map Finished (take 10 allRepos) @ [Wait 2000, Batch (drop 10 allRepos)] @
          map Started (drop 10 allRepos) @ map Finished (drop 10 allRepos)"
    unfolding tl using fifteen by blast
  show ?thesis
    using sizes iff own reach last by (intro conjI) blast+
qed

theorem C5_batches_and_pacing_witness:
  "timeline (snd (snd (syncOrganizationRepos parseBraces world15 ''o'' emptyDb))) =
     [Batch (take 10 listing15)] @ map Started (take 10 listing15) @
     map Finished (take 10 listing15) @ [Wait 2000, Batch (drop 10 listing15)] @
     map Started (drop 10 listing15) @ map Finished (drop 10 listing15) \<and>
   length (take 10 listing15) = 10 \<and> length (drop 10 listing15) = 5 \<and>
   steps parseBraces 1 (repoWorldOf world15) listing15
     (Head 0, emptyDb\<lparr>organizations := [\<lparr> o_id = 1, o_name = ''o'' \<rparr>]\<rparr>, engine0)
     (Head 20,
      paces (spec_trace [(take 10 listing15, rev (take 10 listing15)),
                         (drop 10 listing15, drop 10 listing15)])
        (foldl (\<lambda>s g. processRepo parseBraces 1 (repoWorldOf world15) g s)
           (emptyDb\<lparr>organizations := [\<lparr> o_id = 1, o_name = ''o'' \<rparr>]\<rparr>, engine0)
           (rev (take 10 listing15) @ drop 10 listing15)))"
proof -
  have len: "length listing15 = 15" by (simp add: listing15_def)
  have org: "organization_upsert (orgUpsertFails world15) (orgNewId world15) ''o'' emptyDb =
      Inr (emptyDb\<lparr>organizations := [\<lparr> o_id = 1, o_name = ''o'' \<rparr>]\<rparr>, \<lparr> o_id = 1, o_name = ''o'' \<rparr>)"
    by (simp add: world15_def emptyDb_def organization_upsert_def Let_def)
  have lst: "listForOrg world15 = Some listing15" by (simp add: world15_def)
  note c5 = C5_batches_and_pacing[OF org lst, where P = parseBraces and j = 20 and
      s' = "paces (spec_trace [(take 10 listing15, rev (take 10 listing15)),
                         (drop 10 listing15, drop 10 listing15)])
        (foldl (\<lambda>s g. processRepo parseBraces 1 (repoWorldOf world15) g s)
           (emptyDb\<lparr>organizations := [\<lparr> o_id = 1, o_name = ''o'' \<rparr>]\<rparr>, engine0)
           (rev (take 10 listing15) @ drop 10 listing15))"]
  have tl: "timeline (snd (snd (syncOrganizationRepos parseBraces world15 ''o'' emptyDb))) =
     [Batch (take 10 listing15)] @ map Started (take 10 listing15) @
     map Finished (take 10 listing15) @ [Wait 2000, Batch (drop 10 listing15)] @
     map Started (drop 10 listing15) @ map Finished (drop 10 listing15)"
    using c5 len by blast
  have sizes: "map length (spec_batches BATCH_SIZE listing15) = [10, 5]"
    using c5 len by simp
  have cat: "concat (spec_batches BATCH_SIZE listing15) = listing15" using c5 by blast
  obtain b1 b2 where bs: "spec_batches BATCH_SIZE listing15 = [b1, b2]"
    and l1: "length b1 = 10" and l2: "length b2 = 5"
    using sizes by (auto simp: map_eq_Cons_conv)
  have b1: "b1 = take 10 listing15" and b2: "b2 = drop 10 listing15"
    using cat l1 unfolding bs by (auto simp: append_eq_conv_conj)
  have bs': "spec_batches BATCH_SIZE listing15 = [take 10 listing15, drop 10 listing15]"
    unfolding bs b1 b2 ..
  have n: "20 = BATCH_SIZE * 2" by (simp add: BATCH_SIZE_def)
  have rev: "arrangement (rev (take 10 listing15)) (take 10 listing15)"
    by code_simp
  have sched: "\<exists>sched. map fst sched = spec_batches BATCH_SIZE listing15 \<and>
         list_all (\<lambda>(b, order). arrangement order b) sched \<and>
         20 = BATCH_SIZE * length sched \<and>
         paces (spec_trace [(take 10 listing15, rev (take 10 listing15)),
                         (drop 10 listing15, drop 10 listing15)])
        (foldl (\<lambda>s g. processRepo parseBraces 1 (repoWorldOf world15) g s)
           (emptyDb\<lparr>organizations := [\<lparr> o_id = 1, o_name = ''o'' \<rparr>]\<rparr>, engine0)
           (rev (take 10 listing15) @ drop 10 listing15)) =
         paces (spec_trace sched)
           (foldl (\<lambda>s g. processRepo parseBraces (o_id \<lparr> o_id = 1, o_name = ''o'' \<rparr>)
                      (repoWorldOf world15) g s)
              (emptyDb\<lparr>organizations := [\<lparr> o_id = 1, o_name = ''o'' \<rparr>]\<rparr>, engine0)
              (concat (map snd sched)))"
    by (rule exI[of _ "[(take 10 listing15, rev (take 10 listing15)),
                        (drop 10 listing15, drop 10 listing15)]"])
       (simp add: bs' rev arrangement_refl n)
  have "steps parseBraces (o_id \<lparr> o_id = 1, o_name = ''o'' \<rparr>) (repoWorldOf world15) listing15
     (Head 0, emptyDb\<lparr>organizations := [\<lparr> o_id = 1, o_name = ''o'' \<rparr>]\<rparr>, engine0)
     (Head 20,
      paces (spec_trace [(take 10 listing15, rev (take 10 listing15)),
                         (drop 10 listing15, drop 10 listing15)])
        (foldl (\<lambda>s g. processRepo parseBraces 1 (repoWorldOf world15) g s)
           (emptyDb\<lparr>organizations := [\<lparr> o_id = 1, o_name = ''o'' \<rparr>]\<rparr>, engine0)
           (rev (take 10 listing15) @ drop 10 listing15)))"
    using c5 sched by blast
  then have run: "steps parseBraces 1 (repoWorldOf world15) listing15
     (Head 0, emptyDb\<lparr>organizations := [\<lparr> o_id = 1, o_name = ''o'' \<rparr>]\<rparr>, engine0)
     (Head 20,
      paces (spec_trace [(take 10 listing15, rev (take 10 listing15)),
                         (drop 10 listing15, drop 10 listing15)])
        (foldl (\<lambda>s g. processRepo parseBraces 1 (repoWorldOf world15) g s)
           (emptyDb\<lparr>organizations := [\<lparr> o_id = 1, o_name = ''o'' \<rparr>]\<rparr>, engine0)
           (rev (take 10 listing15) @ drop 10 listing15)))"
    by (simp only: organization.select_convs)
  have "length (take 10 listing15) = 10 \<and> length (drop 10 listing15) = 5"
    using len by simp
  then show ?thesis using tl run by blast
qed

definition rowOne :: repository where
  "rowOne = (commonRepoData 1 0 (repoN 1) (blankRepository 101))\<lparr> r_hasPackageJson := True \<rparr>"

definition dbOne :: database where
  "dbOne =
     \<lparr> organizations = [\<lparr> o_id = 1, o_name = ''o'' \<rparr>],
       repositories = [rowOne],
       packageJsons = [packageJsonData (JObj []) 0 (blankPackageJson 101)] \<rparr>"

definition world1 :: "(githubRepo \<Rightarrow> repoWorld) \<Rightarrow> world" where
  "world1 rw = \<lparr> orgUpsertFails = False, orgNewId = 1, listForOrg = Some [repoN 1],
                 repoWorldOf = rw \<rparr>"

definition commitFails :: "githubRepo \<Rightarrow> repoWorld" where
  "commitFails g = (quietWorld (Resolved (Some ''{}'') 200) g)\<lparr> w_fails := (\<lambda>p. p = AtCommit) \<rparr>"

lemma upsert_rowOne:
  "repository_upsert 1 1 101 (repoN 1) dbOne =
     Inr (dbOne\<lparr>repositories := [rowOne\<lparr>r_lastFetchedAt := Some 1\<rparr>]\<rparr>, rowOne\<lparr>r_lastFetchedAt := Some 1\<rparr>)"
  by (simp add: repository_upsert_def dbOne_def rowOne_def repoN_def commonRepoData_def
      blankRepository_def Let_def)

lemma org_emptyDb:
  "organization_upsert (orgUpsertFails (world1 rw)) (orgNewId (world1 rw)) ''o'' emptyDb =
     Inr (emptyDb\<lparr>organizations := [\<lparr> o_id = 1, o_name = ''o'' \<rparr>]\<rparr>, \<lparr> o_id = 1, o_name = ''o'' \<rparr>)"
  by (simp add: world1_def emptyDb_def organization_upsert_def Let_def)

lemma upsert_fresh:
  "repository_upsert 1 1 101 (repoN 1) (emptyDb\<lparr>organizations := [\<lparr> o_id = 1, o_name = ''o'' \<rparr>]\<rparr>) =
     Inr (emptyDb\<lparr>organizations := [\<lparr> o_id = 1, o_name = ''o'' \<rparr>],
                  repositories := [commonRepoData 1 1 (repoN 1) (blankRepository 101)]\<rparr>,
          commonRepoData 1 1 (repoN 1) (blankRepository 101))"
  by (simp add: repository_upsert_def emptyDb_def Let_def)

text \<open>
  C9. One listed repository whose package.json is fetched and stored, and whose
  transaction then fails at the commit: line 171 has counted it as a success when the
  \<^verbatim>\<open>catch\<close> of line 190 counts it as an error. The run returns
  \<open>successCount = 1\<close> and \<open>errorCount = 1\<close> for a listing of one repository, and
  the rolled-back store holds no row for it.
\<close>

theorem C9_commit_failure_counted_twice:
  "listForOrg (world1 commitFails) = Some [repoN 1] \<and>
   fst (syncOrganizationRepos parseBraces (world1 commitFails) ''o'' emptyDb) =
     JObj [(''success'', JBool True), (''message'', JStr ''Sync complete.''),
           (''successCount'', JNum 1), (''noPackageJsonCount'', JNum 0), (''errorCount'', JNum 1)] \<and>
   repositories (fst (snd (syncOrganizationRepos parseBraces (world1 commitFails) ''o'' emptyDb))) = []"
proof -
  have lst: "listForOrg (world1 commitFails) = Some [repoN 1]" by (simp add: world1_def)
  have rw: "repoWorldOf (world1 commitFails) = commitFails" by (simp add: world1_def)
  have pr: "processRepo parseBraces 1 commitFails (repoN 1)
        (emptyDb\<lparr>organizations := [\<lparr> o_id = 1, o_name = ''o'' \<rparr>]\<rparr>, engine0) =
      (emptyDb\<lparr>organizations := [\<lparr> o_id = 1, o_name = ''o'' \<rparr>]\<rparr>,
       caught (repoN 1) PrismaClientError (countProcessed (repoN 1) engine0))"
    using processRepo_found[of 1 commitFails "repoN 1" _ _ _ "''{}''" parseBraces "JObj []" engine0]
      upsert_fresh
    by (simp add: commitFails_def quietWorld_def getPackageJsonContent_def parseBraces_def repoN_def)
  have bp: "batchPromises parseBraces 1 commitFails [repoN 1] s =
      processRepo parseBraces 1 commitFails (repoN 1) s" for s
    by (simp add: batchPromises_def)
  have out: "syncOrganizationRepos parseBraces (world1 commitFails) ''o'' emptyDb =
     (let s = paces (spec_pacing (spec_batches BATCH_SIZE [repoN 1]))
                (emptyDb\<lparr>organizations := [\<lparr> o_id = 1, o_name = ''o'' \<rparr>]\<rparr>,
                 caught (repoN 1) PrismaClientError (countProcessed (repoN 1) engine0))
      in (syncComplete (snd s), fst s, snd s))"
    using syncOrganizationRepos_complete[OF org_emptyDb lst, of parseBraces]
    unfolding rw organization.simps bp pr .
  show ?thesis
    unfolding out
    by (simp add: paces_def Let_def syncComplete_def count_defs engine0_def emptyDb_def lst)
qed



definition serverError :: "githubRepo \<Rightarrow> repoWorld" where
  "serverError = quietWorld (Rejected (Some 500))"









lemma serverError_dbOne:
  "processRepo P 1 serverError (repoN 1) (dbOne, engine0) =
     (dbOne\<lparr>repositories := [rowOne\<lparr>r_lastFetchedAt := Some 1\<rparr>]\<rparr>,
      countErrorStatus (repoN 1) 500 engine0)"
  using processRepo_other[of 1 serverError "repoN 1" _ _ _ P engine0] upsert_rowOne
  by (simp add: serverError_def quietWorld_def getPackageJsonContent_def repoN_def)

text \<open>
  C2, as stated, fails: a stored repository fetched at time 0 whose manifest fetch
  answers 500 at time 1 has its \<^verbatim>\<open>lastFetchedAt\<close> moved to 1.
\<close>

theorem C2_last_fetched_at_changes_counterexample:
  "snd (getPackageJsonContent (w_response (serverError (repoN 1)))) = 500 \<and>
   map r_lastFetchedAt (repositories dbOne) = [Some 0] \<and>
   map r_lastFetchedAt
     (repositories (fst (processRepo parseBraces 1 serverError (repoN 1) (dbOne, engine0)))) = [Some 1]"
  unfolding serverError_dbOne
  by (simp add: serverError_def quietWorld_def getPackageJsonContent_def dbOne_def rowOne_def
      commonRepoData_def)

text \<open>
  C2, amended. When the repository upsert goes through and the manifest fetch answers
  with a status other than 200 and 404, the unit of work changes no package.json row
  and no \<^verbatim>\<open>hasPackageJson\<close> flag (a row it creates gets the default, false),
  leaves the other two counters alone and counts an error; when the transaction
  commits, the store is the one the upsert left, with the repository's row refreshed
  from the listing and its \<^verbatim>\<open>lastFetchedAt\<close> set to the time of the attempt, and
  exactly one error is counted and logged with the status. The batch goes on with the
  next repository.
\<close>

theorem C2_other_status_keeps_manifest_state:
  assumes "repository_upsert orgId (w_now (world g)) (w_newId (world g)) g db = Inr (db1, r)"
    and "\<not> w_fails (world g) AtRepositoryUpsert"
    and "snd (getPackageJsonContent (w_response (world g))) \<noteq> 200"
    and "snd (getPackageJsonContent (w_response (world g))) \<noteq> 404"
    and "distinct (map r_id (repositories db))"
  shows "packageJsons (fst (processRepo P orgId world g (db, e))) = packageJsons db \<and>
     (flags (fst (processRepo P orgId world g (db, e))) = flags db \<or>
      flags (fst (processRepo P orgId world g (db, e))) = flags db @ [(r_id r, False)]) \<and>
     successCount (snd (processRepo P orgId world g (db, e))) = successCount e \<and>
     noPackageJsonCount (snd (processRepo P orgId world g (db, e))) = noPackageJsonCount e \<and>
     errorCount e < errorCount (snd (processRepo P orgId world g (db, e))) \<and>
     (\<not> w_fails (world g) AtCommit \<longrightarrow>
        fst (processRepo P orgId world g (db, e)) = db1 \<and>
        r \<in> set (repositories db1) \<and>
        r_githubId r = Some (gh_id g) \<and>
        r_fullName r = gh_full_name g \<and>
        r_lastFetchedAt r = Some (w_now (world g)) \<and>
        errorCount (snd (processRepo P orgId world g (db, e))) = errorCount e + 1 \<and>
        console (snd (processRepo P orgId world g (db, e))) =
          console e @ [ErrorStatus (gh_full_name g) (snd (getPackageJsonContent (w_response (world g))))]) \<and>
     batchPromises P orgId world (g # rest) (db, e) =
       batchPromises P orgId world rest (processRepo P orgId world g (db, e))"
proof -
  note pr = processRepo_other[where world=world and g=g and P=P and e=e, OF assms(1,3,4,2)]
  have row: "r_githubId r = Some (gh_id g)" "r_fullName r = gh_full_name g"
    "r_lastFetchedAt r = Some (w_now (world g))"
    using assms(1) by (cases rule: repository_upsert_cases; simp)+
  show ?thesis
  proof (cases "w_fails (world g) AtCommit")
    case True
    then show ?thesis using pr by (simp add: count_defs batchPromises_def)
  next
    case False
    then show ?thesis
      using pr row repository_upsert_packageJsons[OF assms(1)] repository_upsert_member[OF assms(1)]
        repository_upsert_flags[OF assms(1,5)]
      by (simp add: count_defs batchPromises_def)
  qed
qed

theorem C2_other_status_keeps_manifest_state_witness:
  "packageJsons (fst (processRepo parseBraces 1 serverError (repoN 1) (dbOne, engine0))) =
     packageJsons dbOne \<and>
   flags (fst (processRepo parseBraces 1 serverError (repoN 1) (dbOne, engine0))) = [(101, True)] \<and>
   errorCount (snd (processRepo parseBraces 1 serverError (repoN 1) (dbOne, engine0))) = 1"
proof -
  have up: "repository_upsert 1 (w_now (serverError (repoN 1))) (w_newId (serverError (repoN 1)))
      (repoN 1) dbOne =
     Inr (dbOne\<lparr>repositories := [rowOne\<lparr>r_lastFetchedAt := Some 1\<rparr>]\<rparr>, rowOne\<lparr>r_lastFetchedAt := Some 1\<rparr>)"
    using upsert_rowOne by (simp add: serverError_def quietWorld_def repoN_def)
  have nf: "\<not> w_fails (serverError (repoN 1)) AtRepositoryUpsert"
    "\<not> w_fails (serverError (repoN 1)) AtCommit"
    by (simp_all add: serverError_def quietWorld_def)
  have st: "snd (getPackageJsonContent (w_response (serverError (repoN 1)))) \<noteq> 200"
    "snd (getPackageJsonContent (w_response (serverError (repoN 1)))) \<noteq> 404"
    by (simp_all add: serverError_def quietWorld_def getPackageJsonContent_def)
  have pk: "distinct (map r_id (repositories dbOne))" by (simp add: dbOne_def)
  have fl: "flags (dbOne\<lparr>repositories := [rowOne\<lparr>r_lastFetchedAt := Some 1\<rparr>]\<rparr>) = [(101, True)]"
    by (simp add: flags_def rowOne_def commonRepoData_def blankRepository_def)
  show ?thesis
    using C2_other_status_keeps_manifest_state[where world=serverError and g="repoN 1"
        and P=parseBraces and e=engine0 and rest="[]", OF up nf(1) st pk] nf(2) fl
    by (simp add: engine0_def)
qed

lemma organization_upsert_tables:
  "organization_upsert fails newId orgName db = Inr (db1, ou) \<Longrightarrow>
     repositories db1 = repositories db \<and> packageJsons db1 = packageJsons db"
  by (auto simp: organization_upsert_def Let_def split: if_splits option.splits)

lemma invariant_tables:
  "repositories db1 = repositories db \<Longrightarrow> packageJsons db1 = packageJsons db \<Longrightarrow>
     has_manifest_invariant db1 = has_manifest_invariant db \<and>
     foreign_keys_ok db1 = foreign_keys_ok db"
  by (simp add: has_manifest_invariant_def foreign_keys_ok_def hasManifestRow_def)

lemma syncOrganizationRepos_invariant:
  assumes inv: "has_manifest_invariant db" and fk: "foreign_keys_ok db"
  shows "has_manifest_invariant (fst (snd (syncOrganizationRepos P W orgName db))) \<and>
         foreign_keys_ok (fst (snd (syncOrganizationRepos P W orgName db)))"
proof (cases "organization_upsert (orgUpsertFails W) (orgNewId W) orgName db")
  case (Inl err)
  then show ?thesis using inv fk by (simp add: syncOrganizationRepos_def)
next
  case (Inr p)
  obtain db1 ou where p: "p = (db1, ou)" by (cases p)
  have ok1: "has_manifest_invariant db1" "foreign_keys_ok db1"
    using organization_upsert_tables[OF Inr[unfolded p]] invariant_tables[of db1 db] inv fk
    by simp_all
  show ?thesis
  proof (cases "listForOrg W")
    case None
    then show ?thesis using Inr p ok1 by (simp add: syncOrganizationRepos_def)
  next
    case (Some allRepos)
    show ?thesis
      using syncOrganizationRepos_complete[OF Inr[unfolded p] Some, of P]
        batchPromises_invariant[of "(db1, engine0)" P "o_id ou" "repoWorldOf W" allRepos] ok1
      by (simp add: Let_def paces_def)
  qed
qed

text \<open>
  C3. On a store whose package.json rows all belong to repository rows, the
  invariant "the flag is true exactly when a package.json row exists for the
  repository" is preserved by every unit of work, whichever way it ends (manifest
  stored, manifest confirmed absent, error status, or a rolled-back transaction), and
  by a whole run.
\<close>

theorem C3_has_manifest_invariant_preserved:
  assumes "has_manifest_invariant db" and "foreign_keys_ok db"
  shows "has_manifest_invariant (fst (processRepo P orgId world g (db, e))) \<and>
     foreign_keys_ok (fst (processRepo P orgId world g (db, e))) \<and>
     has_manifest_invariant (fst (snd (syncOrganizationRepos P W orgName db))) \<and>
     foreign_keys_ok (fst (snd (syncOrganizationRepos P W orgName db)))"
  using processRepo_invariant[of "(db, e)" P orgId world g]
    syncOrganizationRepos_invariant[OF assms, of P W orgName] assms
  by simp


definition notFound404 :: "githubRepo \<Rightarrow> repoWorld" where
  "notFound404 = quietWorld (Rejected (Some 404))"

lemma notFound404_dbOne:
  "processRepo P 1 notFound404 (repoN 1) (dbOne, e) =
     (dbOne\<lparr>repositories := [rowOne\<lparr>r_lastFetchedAt := Some 1, r_hasPackageJson := False\<rparr>],
             packageJsons := []\<rparr>,
      countNoPackageJson (repoN 1) e)"
proof -
  have "processRepo P 1 notFound404 (repoN 1) (dbOne, e) =
     (repository_update (r_id (rowOne\<lparr>r_lastFetchedAt := Some 1\<rparr>)) False
        (packageJson_deleteMany (r_id (rowOne\<lparr>r_lastFetchedAt := Some 1\<rparr>))
           (dbOne\<lparr>repositories := [rowOne\<lparr>r_lastFetchedAt := Some 1\<rparr>]\<rparr>)),
      countNoPackageJson (repoN 1) e)"
    using processRepo_notFound[where world=notFound404 and g="repoN 1" and orgId=1 and P=P and e=e
        and db=dbOne] upsert_rowOne
    by (simp add: notFound404_def quietWorld_def getPackageJsonContent_def repoN_def)
  then show ?thesis
    by (simp add: repository_update_def packageJson_deleteMany_def dbOne_def rowOne_def
        packageJsonData_def blankPackageJson_def commonRepoData_def blankRepository_def)
qed

lemma dbOne_ok: "has_manifest_invariant dbOne" "foreign_keys_ok dbOne"
  by (simp_all add: has_manifest_invariant_def foreign_keys_ok_def hasManifestRow_def dbOne_def
      rowOne_def packageJsonData_def blankPackageJson_def commonRepoData_def blankRepository_def)

theorem C3_has_manifest_invariant_preserved_witness:
  "has_manifest_invariant dbOne \<and> foreign_keys_ok dbOne \<and>
   map r_hasPackageJson (repositories dbOne) = [True] \<and>
   map r_hasPackageJson
     (repositories (fst (processRepo parseBraces 1 notFound404 (repoN 1) (dbOne, engine0)))) = [False] \<and>
   packageJsons (fst (processRepo parseBraces 1 notFound404 (repoN 1) (dbOne, engine0))) = [] \<and>
   has_manifest_invariant (fst (processRepo parseBraces 1 notFound404 (repoN 1) (dbOne, engine0)))"
proof -
  have a: "map r_hasPackageJson (repositories dbOne) = [True]"
    by (simp add: dbOne_def rowOne_def)
  have b: "map r_hasPackageJson
     (repositories (fst (processRepo parseBraces 1 notFound404 (repoN 1) (dbOne, engine0)))) = [False]"
    unfolding notFound404_dbOne by simp
  have c: "packageJsons (fst (processRepo parseBraces 1 notFound404 (repoN 1) (dbOne, engine0))) = []"
    unfolding notFound404_dbOne by simp
  show ?thesis
    using C3_has_manifest_invariant_preserved[OF dbOne_ok, of parseBraces 1 notFound404 "repoN 1" engine0]
      dbOne_ok a b c
    by blast
qed






section \<open>The repository client: lib/services/githubService.js\<close>

text \<open>
  What \<^verbatim>\<open>octokit.repos.getContent\<close> answers for a path of one repository: a
  directory listing, a single object, or a rejection with its status. An item carries
  the answer for its own path, so a repository is a finite tree.
\<close>

datatype item = Item (i_type: string) (i_name: string) (i_path: string) (i_contents: contents)
  and contents = Listing "item list" | Single item | Failed "nat option"

text \<open>\<^verbatim>\<open>shouldSkipDirectory(dirName)\<close>, lines 146-162.\<close>

definition skipDirs :: "string list" where
  "skipDirs = [''node_modules'', ''.git'', ''.github'', ''dist'', ''build'', ''coverage'', ''docs'',
               ''.vscode'', ''.idea'', ''test'', ''tests'', ''__tests__'']"

definition shouldSkipDirectory :: "string \<Rightarrow> bool" where
  "shouldSkipDirectory dirName = (dirName \<in> set skipDirs \<or> take 1 dirName = ''.'')"

text \<open>
  \<^verbatim>\<open>findAllPackageJsons(owner, repo, path)\<close>, lines 111-139: \<open>tryBlock\<close> is the body
  of the \<^verbatim>\<open>try\<close> with the paths pushed so far and the error that left it, if any;
  \<open>forOf\<close> is its loop; \<open>visit\<close> is the recursive call on a subdirectory. The
  \<^verbatim>\<open>catch\<close> logs and goes on to the \<^verbatim>\<open>return\<close>.
\<close>

fun findAllPackageJsons :: "contents \<Rightarrow> jsError + string list"
  and tryBlock :: "contents \<Rightarrow> string list \<times> jsError option"
  and forOf :: "item list \<Rightarrow> string list \<Rightarrow> string list \<times> jsError option"
  and visit :: "item \<Rightarrow> jsError + string list"
where
  "findAllPackageJsons response =
     (case tryBlock response of
        (paths, None) \<Rightarrow> Inr paths
      | (paths, Some error) \<Rightarrow> Inr paths)"
| "tryBlock (Failed status) = ([], Some RequestError)"
| "tryBlock (Listing items) = forOf items []"
| "tryBlock (Single item) = forOf [item] []"
| "forOf [] paths = (paths, None)"
| "forOf (item # rest) paths =
     (if i_type item = ''file'' \<and> i_name item = ''package.json''
      then forOf rest (paths @ [i_path item])
      else if i_type item = ''dir'' \<and> \<not> shouldSkipDirectory (i_name item)
      then (case visit item of
              Inl error \<Rightarrow> (paths, Some error)
            | Inr subPackageJsons \<Rightarrow> forOf rest (paths @ subPackageJsons))
      else forOf rest paths)"
| "visit (Item ty name path sub) = findAllPackageJsons sub"

text \<open>
  The specification's reading of the walk: the manifests of a tree that are reached
  without entering a skipped directory or a directory whose listing is rejected, in
  the order of the listings.
\<close>

fun spec_manifests :: "contents \<Rightarrow> string list"
  and spec_manifestsIn :: "item list \<Rightarrow> string list"
  and spec_manifestsAt :: "item \<Rightarrow> string list"
where
  "spec_manifests (Failed status) = []"
| "spec_manifests (Listing items) = spec_manifestsIn items"
| "spec_manifests (Single item) = spec_manifestsIn [item]"
| "spec_manifestsIn [] = []"
| "spec_manifestsIn (item # rest) = spec_manifestsAt item @ spec_manifestsIn rest"
| "spec_manifestsAt (Item ty name path sub) =
     (if ty = ''file'' \<and> name = ''package.json'' then [path]
      else if ty = ''dir'' \<and> \<not> shouldSkipDirectory name then spec_manifests sub
      else [])"

lemma spec_manifestsIn_append:
  "spec_manifestsIn (xs @ ys) = spec_manifestsIn xs @ spec_manifestsIn ys"
  by (induction xs) simp_all

lemma walk_refines:
  "findAllPackageJsons response = Inr (spec_manifests response)"
  "fst (tryBlock response) = spec_manifests response"
  "forOf items paths = (paths @ spec_manifestsIn items, None)"
  "visit item = Inr (spec_manifests (i_contents item))"
proof (induction response and response and items paths and item
    rule: findAllPackageJsons_tryBlock_forOf_visit.induct)
  case (1 response)
  then show ?case by (cases "tryBlock response"; cases "snd (tryBlock response)") auto
next
  case (2 status)
  then show ?case by simp
next
  case (3 items)
  then show ?case by simp
next
  case (4 item)
  then show ?case by simp
next
  case (5 paths)
  then show ?case by simp
next
  case (6 item rest paths)
  then show ?case by (cases item) (auto simp del: findAllPackageJsons.simps)
next
  case (7 ty name path sub)
  then show ?case by simp
qed


definition leaf :: "string \<Rightarrow> string \<Rightarrow> string \<Rightarrow> item" where
  "leaf ty name path = Item ty name path (Failed None)"

definition exampleTree :: contents where
  "exampleTree =
     Listing
       [leaf ''file'' ''README.md'' ''README.md'',
        leaf ''file'' ''package.json'' ''package.json'',
        Item ''dir'' ''broken'' ''broken'' (Failed (Some 500)),
        Item ''dir'' ''gone'' ''gone'' (Failed (Some 404)),
        Item ''dir'' ''node_modules'' ''node_modules''
          (Listing [leaf ''file'' ''package.json'' ''node_modules/package.json'']),
        Item ''dir'' ''packages'' ''packages''
          (Listing
             [Item ''dir'' ''a'' ''packages/a'' (Failed None),
              Item ''dir'' ''b'' ''packages/b''
                (Listing [leaf ''file'' ''package.json'' ''packages/b/package.json''])])]"

text \<open>
  C10. \<^verbatim>\<open>findAllPackageJsons\<close> never fails: whatever the answers of the hosting
  API, it returns the list of the manifests reached without entering a skipped
  directory or a directory whose listing is rejected. A rejected listing at the top,
  with whatever status, gives the empty list; a subdirectory whose listing is rejected
  adds nothing and does not stop the walk, so the manifests found before and after it
  are returned and those below it are missing; a \<^verbatim>\<open>package.json\<close> beside such
  directories is returned.
\<close>

theorem C10_findAllPackageJsons_swallows_errors:
  "findAllPackageJsons response = Inr (spec_manifests response) \<and>
   findAllPackageJsons (Failed status) = Inr [] \<and>
   findAllPackageJsons (Listing (before @ Item ''dir'' name path (Failed status) # after)) =
     Inr (spec_manifestsIn before @ spec_manifestsIn after) \<and>
   findAllPackageJsons (Listing (before @ Item ''file'' ''package.json'' path sub # after)) =
     Inr (spec_manifestsIn before @ [path] @ spec_manifestsIn after)"
  by (simp add: walk_refines spec_manifestsIn_append del: findAllPackageJsons.simps)

theorem C10_findAllPackageJsons_swallows_errors_witness:
  "findAllPackageJsons exampleTree = Inr [''package.json'', ''packages/b/package.json''] \<and>
   findAllPackageJsons (Failed (Some 500)) = Inr []"
proof -
  have "spec_manifests exampleTree = [''package.json'', ''packages/b/package.json'']"
    by code_simp
  then show ?thesis
    using C10_findAllPackageJsons_swallows_errors[where response = exampleTree
        and status = "Some 500"]
    by (simp del: findAllPackageJsons.simps)
qed

section \<open>The analyzer: lib/services/packageAnalyzerService.js\<close>

subsection \<open>JavaScript strings\<close>

definition digits10 :: string where
  "digits10 = ''0123456789''"

function showNat :: "nat \<Rightarrow> string" where
  "showNat n = (if n < 10 then [digits10 ! n] else showNat (n div 10) @ [digits10 ! (n mod 10)])"
  by pat_completeness auto
termination
  by (relation "measure id") auto

declare showNat.simps [simp del]

definition showInt :: "int \<Rightarrow> string" where
  "showInt i = (if i < 0 then CHR ''-'' # showNat (nat (- i)) else showNat (nat i))"

fun join :: "string \<Rightarrow> string list \<Rightarrow> string" where
  "join sep [] = []"
| "join sep [s] = s"
| "join sep (s # t # ts) = s @ sep @ join sep (t # ts)"

text \<open>\<^verbatim>\<open>String(v)\<close>.\<close>

fun js_String :: "json \<Rightarrow> string" where
  "js_String JNull = ''null''"
| "js_String (JBool b) = (if b then ''true'' else ''false'')"
| "js_String (JNum n) = showInt n"
| "js_String (JStr s) = s"
| "js_String (JArr xs) = join '','' (map (\<lambda>v. if v = JNull then [] else js_String v) xs)"
| "js_String (JObj kvs) = ''[object Object]''"

text \<open>\<^verbatim>\<open>s.trim()\<close>.\<close>

definition isSpace :: "char \<Rightarrow> bool" where
  "isSpace c = (c \<in> set [CHR '' '', CHR 0x09, CHR 0x0A, CHR 0x0B, CHR 0x0C, CHR 0x0D])"

definition trim :: "string \<Rightarrow> string" where
  "trim s = rev (dropWhile isSpace (rev (dropWhile isSpace s)))"

text \<open>\<^verbatim>\<open>typeof v === 'object'\<close> for a truthy \<open>v\<close>, and \<^verbatim>\<open>Object.entries(v)\<close>.\<close>

fun isObject :: "json \<Rightarrow> bool" where
  "isObject (JObj kvs) = True"
| "isObject (JArr xs) = True"
| "isObject v = False"

fun Object_entries :: "json \<Rightarrow> (string \<times> json) list" where
  "Object_entries (JObj kvs) = kvs"
| "Object_entries (JArr xs) = zip (map showNat [0..<length xs]) xs"
| "Object_entries v = []"

subsection \<open>People\<close>

record person =
  per_name :: "string option"
  per_email :: "string option"
  per_url :: "string option"

definition firstSpan :: "char \<Rightarrow> char \<Rightarrow> string \<Rightarrow> string option" where
  "firstSpan l r s =
     (let rest = dropWhile (\<lambda>c. c \<noteq> l) s in
      if rest = [] then None
      else if r \<in> set (tl rest) then Some (takeWhile (\<lambda>c. c \<noteq> r) (tl rest))
      else None)"

definition withoutFirstSpan :: "char \<Rightarrow> char \<Rightarrow> string \<Rightarrow> string" where
  "withoutFirstSpan l r s =
     (case firstSpan l r s of
        None \<Rightarrow> s
      | Some inner \<Rightarrow>
          takeWhile (\<lambda>c. c \<noteq> l) s @ drop (length inner + 2) (dropWhile (\<lambda>c. c \<noteq> l) s))"

definition stringField :: "json option \<Rightarrow> string option" where
  "stringField v = (case v of Some (JStr s) \<Rightarrow> if s = [] then None else Some s | _ \<Rightarrow> None)"

text \<open>
  Modelled from the spec: \<^verbatim>\<open>parsePersonString\<close> is called by
  \<^verbatim>\<open>preparePeopleData\<close> and is not among the source files. A free-text string
  gives its email from the first \<^verbatim>\<open><...>\<close> span, its URL from the first
  \<^verbatim>\<open>(...)\<close> span and, as its name, the remaining text trimmed; a structured object
  gives its \<^verbatim>\<open>name\<close>, \<^verbatim>\<open>email\<close> and \<^verbatim>\<open>url\<close> fields; the parser is tolerant,
  so anything else resolves to nothing. A name that is empty does not resolve.
\<close>

definition parsePersonString :: "json \<Rightarrow> person" where
  "parsePersonString p =
     (case p of
        JStr s \<Rightarrow>
          \<lparr> per_name =
              (let n = trim (withoutFirstSpan CHR ''('' CHR '')'' (withoutFirstSpan CHR ''<'' CHR ''>'' s))
               in if n = [] then None else Some n),
            per_email = firstSpan CHR ''<'' CHR ''>'' s,
            per_url = firstSpan CHR ''('' CHR '')'' s \<rparr>
      | JObj kvs \<Rightarrow>
          \<lparr> per_name = stringField (map_of kvs ''name''),
            per_email = stringField (map_of kvs ''email''),
            per_url = stringField (map_of kvs ''url'') \<rparr>
      | _ \<Rightarrow> \<lparr> per_name = None, per_email = None, per_url = None \<rparr>)"

subsection \<open>Child rows\<close>

datatype dependencyType = PRODUCTION | DEVELOPMENT | PEER | OPTIONAL | BUNDLED

datatype personRole = AUTHOR | CONTRIBUTOR | MAINTAINER

record projectDependency =
  pd_projectId :: nat
  pd_packageName :: string
  pd_version :: string
  pd_dependencyType :: dependencyType

record projectScript =
  ps_projectId :: nat
  ps_scriptName :: string
  ps_command :: string

record projectKeyword =
  pk_projectId :: nat
  pk_keyword :: string

record projectPerson =
  pp_projectId :: nat
  pp_name :: string
  pp_email :: "string option"
  pp_url :: "string option"
  pp_role :: personRole

text \<open>
  The four \<^verbatim>\<open>prepare...Data\<close> functions, lines 534-685. Their document is never
  \<^verbatim>\<open>null\<close>: every caller has read \<^verbatim>\<open>pkg.name\<close> before.
\<close>

definition depTypes :: "(string \<times> dependencyType) list" where
  "depTypes =
     [(''dependencies'', PRODUCTION), (''devDependencies'', DEVELOPMENT),
      (''peerDependencies'', PEER), (''optionalDependencies'', OPTIONAL),
      (''bundledDependencies'', BUNDLED), (''bundleDependencies'', BUNDLED)]"

definition objectProp :: "json \<Rightarrow> string \<Rightarrow> (string \<times> json) list" where
  "objectProp pkg key =
     (case getProp pkg key of
        None \<Rightarrow> []
      | Some v \<Rightarrow> if truthy v \<and> isObject v then Object_entries v else [])"

definition prepareDependenciesData :: "nat \<Rightarrow> json \<Rightarrow> projectDependency list" where
  "prepareDependenciesData projectId pkg =
     concat (map (\<lambda>(key, type).
        map (\<lambda>(name, version).
               \<lparr> pd_projectId = projectId, pd_packageName = name,
                 pd_version = js_String version, pd_dependencyType = type \<rparr>)
            (objectProp pkg key)) depTypes)"

definition prepareScriptsData :: "nat \<Rightarrow> json \<Rightarrow> projectScript list" where
  "prepareScriptsData projectId pkg =
     map (\<lambda>(name, command).
            \<lparr> ps_projectId = projectId, ps_scriptName = name, ps_command = js_String command \<rparr>)
         (objectProp pkg ''scripts'')"

definition arrayProp :: "json \<Rightarrow> string \<Rightarrow> json list" where
  "arrayProp pkg key = (case getProp pkg key of Some (JArr xs) \<Rightarrow> xs | _ \<Rightarrow> [])"

definition prepareKeywordsData :: "nat \<Rightarrow> json \<Rightarrow> projectKeyword list" where
  "prepareKeywordsData projectId pkg =
     concat (map (\<lambda>keyword.
        case keyword of
          JStr s \<Rightarrow> if s = [] then [] else [\<lparr> pk_projectId = projectId, pk_keyword = trim s \<rparr>]
        | _ \<Rightarrow> []) (arrayProp pkg ''keywords''))"

definition personRow :: "nat \<Rightarrow> personRole \<Rightarrow> json \<Rightarrow> projectPerson list" where
  "personRow projectId role p =
     (let person = parsePersonString p in
      case per_name person of
        None \<Rightarrow> []
      | Some n \<Rightarrow>
          if n = [] then []
          else [\<lparr> pp_projectId = projectId, pp_name = n, pp_email = per_email person,
                  pp_url = per_url person, pp_role = role \<rparr>])"

definition preparePeopleData :: "nat \<Rightarrow> json \<Rightarrow> projectPerson list" where
  "preparePeopleData projectId pkg =
     (case getProp pkg ''author'' of
        None \<Rightarrow> []
      | Some author \<Rightarrow> if truthy author then personRow projectId AUTHOR author else [])
     @ concat (map (personRow projectId CONTRIBUTOR) (arrayProp pkg ''contributors''))
     @ concat (map (personRow projectId MAINTAINER) (arrayProp pkg ''maintainers''))"

subsection \<open>The project store\<close>

record project =
  p_id :: nat
  p_name :: string
  p_version :: json
  p_description :: json
  p_license :: json
  p_licenseUrl :: json
  p_projectType :: json
  p_packageManager :: json
  p_packageManagerVersion :: json

record analyzerDb =
  projects :: "project list"
  projectDependencies :: "projectDependency list"
  projectScripts :: "projectScript list"
  projectKeywords :: "projectKeyword list"
  projectPersons :: "projectPerson list"

text \<open>\<^verbatim>\<open>saveDependencies\<close>, \<^verbatim>\<open>saveScripts\<close>, \<^verbatim>\<open>saveKeywords\<close> and \<^verbatim>\<open>savePeople\<close>.\<close>

definition saveDependencies :: "nat \<Rightarrow> json \<Rightarrow> analyzerDb \<Rightarrow> analyzerDb" where
  "saveDependencies projectId pkg db =
     (let db1 = db\<lparr>projectDependencies :=
                     filter (\<lambda>d. pd_projectId d \<noteq> projectId) (projectDependencies db)\<rparr>;
          dependencies = prepareDependenciesData projectId pkg
      in if length dependencies > 0
         then db1\<lparr>projectDependencies := projectDependencies db1 @ dependencies\<rparr>
         else db1)"

definition saveScripts :: "nat \<Rightarrow> json \<Rightarrow> analyzerDb \<Rightarrow> analyzerDb" where
  "saveScripts projectId pkg db =
     (let db1 = db\<lparr>projectScripts :=
                     filter (\<lambda>d. ps_projectId d \<noteq> projectId) (projectScripts db)\<rparr>;
          scripts = prepareScriptsData projectId pkg
      in if length scripts > 0
         then db1\<lparr>projectScripts := projectScripts db1 @ scripts\<rparr>
         else db1)"

definition saveKeywords :: "nat \<Rightarrow> json \<Rightarrow> analyzerDb \<Rightarrow> analyzerDb" where
  "saveKeywords projectId pkg db =
     (let db1 = db\<lparr>projectKeywords :=
                     filter (\<lambda>d. pk_projectId d \<noteq> projectId) (projectKeywords db)\<rparr>;
          keywords = prepareKeywordsData projectId pkg
      in if length keywords > 0
         then db1\<lparr>projectKeywords := projectKeywords db1 @ keywords\<rparr>
         else db1)"

definition savePeople :: "nat \<Rightarrow> json \<Rightarrow> analyzerDb \<Rightarrow> analyzerDb" where
  "savePeople projectId pkg db =
     (let db1 = db\<lparr>projectPersons :=
                     filter (\<lambda>d. pp_projectId d \<noteq> projectId) (projectPersons db)\<rparr>;
          people = preparePeopleData projectId pkg
      in if length people > 0
         then db1\<lparr>projectPersons := projectPersons db1 @ people\<rparr>
         else db1)"

subsection \<open>Projects\<close>

record gitInfo =
  g_owner :: "string option"
  g_repo :: "string option"
  g_path :: "string option"

text \<open>An operand inside a template literal.\<close>

definition template :: "string option \<Rightarrow> string" where
  "template v = (case v of None \<Rightarrow> ''undefined'' | Some s \<Rightarrow> s)"

text \<open>\<^verbatim>\<open>generateUniqueName(packageName, gitInfo)\<close>, lines 506-517.\<close>

definition generateUniqueName :: "json option \<Rightarrow> gitInfo \<Rightarrow> json" where
  "generateUniqueName packageName gitInfo =
     (case packageName of
        None \<Rightarrow>
          JStr (template (g_owner gitInfo) @ ''/'' @ template (g_repo gitInfo) @
                (if g_path gitInfo \<noteq> Some ''package.json''
                 then ''/'' @ template (g_path gitInfo) else []))
      | Some v \<Rightarrow>
          if \<not> truthy v \<or> v = JStr ''unknown''
          then JStr (template (g_owner gitInfo) @ ''/'' @ template (g_repo gitInfo) @
                     (if g_path gitInfo \<noteq> Some ''package.json''
                      then ''/'' @ template (g_path gitInfo) else []))
          else if g_path gitInfo \<noteq> None \<and> g_path gitInfo \<noteq> Some [] \<and>
                  g_path gitInfo \<noteq> Some ''package.json''
          then JStr (js_String v @ ''@'' @ template (g_owner gitInfo) @ ''/'' @
                     template (g_repo gitInfo) @ ''/'' @ template (g_path gitInfo))
          else v)"

text \<open>
  Modelled from the spec: \<^verbatim>\<open>extractLicense\<close>, \<^verbatim>\<open>extractLicenseUrl\<close>,
  \<^verbatim>\<open>detectProjectType\<close>, \<^verbatim>\<open>detectPackageManager\<close> and
  \<^verbatim>\<open>extractPackageManagerVersion\<close>, which \<^verbatim>\<open>prepareProjectData\<close> calls at
  lines 484-493, are defined in no source file, and the specification says of them
  only that the extractor normalizes the license of a manifest. They are parameters
  here: what each call returns, or the error it throws. \<open>absentHelpers\<close> is the
  class exactly as the source file gives it, where each of these calls is a
  \<^verbatim>\<open>TypeError\<close> (the method is \<^verbatim>\<open>undefined\<close>); \<open>returning\<close> is a class
  whose five methods return.
\<close>

record helpers =
  extractLicense :: "json option \<Rightarrow> jsError + json"
  extractLicenseUrl :: "json option \<Rightarrow> jsError + json"
  detectProjectType :: "json \<Rightarrow> jsError + json"
  detectPackageManager :: "json \<Rightarrow> jsError + json"
  extractPackageManagerVersion :: "json \<Rightarrow> jsError + json"

definition absentHelpers :: helpers where
  "absentHelpers =
     \<lparr> extractLicense = (\<lambda>license. Inl TypeError),
       extractLicenseUrl = (\<lambda>license. Inl TypeError),
       detectProjectType = (\<lambda>pkg. Inl TypeError),
       detectPackageManager = (\<lambda>pkg. Inl TypeError),
       extractPackageManagerVersion = (\<lambda>pkg. Inl TypeError) \<rparr>"

definition returning ::
  "(json option \<Rightarrow> json) \<Rightarrow> (json option \<Rightarrow> json) \<Rightarrow> (json \<Rightarrow> json) \<Rightarrow> (json \<Rightarrow> json) \<Rightarrow>
   (json \<Rightarrow> json) \<Rightarrow> helpers" where
  "returning license licenseUrl projectType packageManager packageManagerVersion =
     \<lparr> extractLicense = (\<lambda>x. Inr (license x)),
       extractLicenseUrl = (\<lambda>x. Inr (licenseUrl x)),
       detectProjectType = (\<lambda>pkg. Inr (projectType pkg)),
       detectPackageManager = (\<lambda>pkg. Inr (packageManager pkg)),
       extractPackageManagerVersion = (\<lambda>pkg. Inr (packageManagerVersion pkg)) \<rparr>"

text \<open>
  \<^verbatim>\<open>prepareProjectData\<close>, lines 472-501, for the name, the version, the
  description and the five columns computed by the methods above; the other columns
  are plain reads of \<^verbatim>\<open>pkg\<close> and \<^verbatim>\<open>gitInfo\<close>. The object literal is evaluated in
  order: reading \<^verbatim>\<open>pkg.name\<close> of a \<^verbatim>\<open>null\<close> document throws first, then the
  first method call that throws.
\<close>

record projectData =
  d_name :: json
  d_version :: json
  d_description :: json
  d_license :: json
  d_licenseUrl :: json
  d_projectType :: json
  d_packageManager :: json
  d_packageManagerVersion :: json

definition orElse :: "json option \<Rightarrow> json \<Rightarrow> json" where
  "orElse x d = (case x of None \<Rightarrow> d | Some v \<Rightarrow> if truthy v then v else d)"

definition prepareProjectData :: "helpers \<Rightarrow> json \<Rightarrow> gitInfo \<Rightarrow> jsError + projectData" where
  "prepareProjectData this pkg gitInfo =
     (if pkg = JNull then Inl TypeError
      else
        (case extractLicense this (getProp pkg ''license'') of
           Inl err \<Rightarrow> Inl err
         | Inr license \<Rightarrow>
        (case extractLicenseUrl this (getProp pkg ''license'') of
           Inl err \<Rightarrow> Inl err
         | Inr licenseUrl \<Rightarrow>
        (case detectProjectType this pkg of
           Inl err \<Rightarrow> Inl err
         | Inr projectType \<Rightarrow>
        (case detectPackageManager this pkg of
           Inl err \<Rightarrow> Inl err
         | Inr packageManager \<Rightarrow>
        (case extractPackageManagerVersion this pkg of
           Inl err \<Rightarrow> Inl err
         | Inr packageManagerVersion \<Rightarrow>
             Inr \<lparr> d_name = generateUniqueName (getProp pkg ''name'') gitInfo,
                   d_version = orElse (getProp pkg ''version'') (JStr ''0.0.0''),
                   d_description = orElse (getProp pkg ''description'') JNull,
                   d_license = license,
                   d_licenseUrl = licenseUrl,
                   d_projectType = projectType,
                   d_packageManager = packageManager,
                   d_packageManagerVersion = packageManagerVersion \<rparr>))))))"

text \<open>
  \<^verbatim>\<open>tx.project.upsert({ where: { name }, update, create })\<close> of lines 398-407; a
  name that is not a string is refused, and \<open>newId\<close> is the key the store gives a
  project created under a name. The update writes the version and the description
  (and the hash and the time of analysis); the create writes every column.
\<close>

definition project_upsert ::
  "(string \<Rightarrow> nat) \<Rightarrow> projectData \<Rightarrow> analyzerDb \<Rightarrow> jsError + (analyzerDb \<times> project)" where
  "project_upsert newId d db =
     (case d_name d of
        JStr n \<Rightarrow>
          (case find (\<lambda>p. p_name p = n) (projects db) of
             Some old \<Rightarrow>
               let new = old\<lparr>p_version := d_version d, p_description := d_description d\<rparr> in
               Inr (db\<lparr>projects := map (\<lambda>p. if p_id p = p_id old then new else p) (projects db)\<rparr>,
                    new)
           | None \<Rightarrow>
               if list_ex (\<lambda>p. p_id p = newId n) (projects db) then Inl UniqueConstraintFailed
               else
                 let new = \<lparr> p_id = newId n, p_name = n, p_version = d_version d,
                             p_description = d_description d, p_license = d_license d,
                             p_licenseUrl = d_licenseUrl d, p_projectType = d_projectType d,
                             p_packageManager = d_packageManager d,
                             p_packageManagerVersion = d_packageManagerVersion d \<rparr> in
                 Inr (db\<lparr>projects := projects db @ [new]\<rparr>, new))
      | _ \<Rightarrow> Inl PrismaClientError)"

subsection \<open>\<^verbatim>\<open>processBatch\<close>, lines 375-439\<close>

text \<open>Lines 383-391.\<close>

fun prepareAll :: "helpers \<Rightarrow> (json \<times> gitInfo) list \<Rightarrow> jsError + projectData list" where
  "prepareAll this [] = Inr []"
| "prepareAll this ((packageJson, gitInfo) # batch) =
     (case prepareProjectData this packageJson gitInfo of
        Inl err \<Rightarrow> Inl err
      | Inr projectData \<Rightarrow>
          (case prepareAll this batch of
             Inl err \<Rightarrow> Inl err
           | Inr projectsData \<Rightarrow> Inr (projectData # projectsData)))"

text \<open>Lines 396-409.\<close>

fun upsertAll ::
  "(string \<Rightarrow> nat) \<Rightarrow> projectData list \<Rightarrow> analyzerDb \<Rightarrow> jsError + (analyzerDb \<times> project list)" where
  "upsertAll newId [] db = Inr (db, [])"
| "upsertAll newId (projectData # projectsData) db =
     (case project_upsert newId projectData db of
        Inl err \<Rightarrow> Inl err
      | Inr (db1, project) \<Rightarrow>
          (case upsertAll newId projectsData db1 of
             Inl err \<Rightarrow> Inl err
           | Inr (db2, ps) \<Rightarrow> Inr (db2, project # ps)))"

text \<open>The arrays filled by the loop of lines 412-429.\<close>

record buffers =
  allDependencies :: "projectDependency list"
  allScripts :: "projectScript list"
  allKeywords :: "projectKeyword list"
  allPeople :: "projectPerson list"

definition deleteChildren :: "nat \<Rightarrow> analyzerDb \<Rightarrow> analyzerDb" where
  "deleteChildren projectId db =
     db\<lparr> projectDependencies := filter (\<lambda>d. pd_projectId d \<noteq> projectId) (projectDependencies db),
         projectScripts := filter (\<lambda>d. ps_projectId d \<noteq> projectId) (projectScripts db),
         projectKeywords := filter (\<lambda>d. pk_projectId d \<noteq> projectId) (projectKeywords db),
         projectPersons := filter (\<lambda>d. pp_projectId d \<noteq> projectId) (projectPersons db) \<rparr>"

fun relatedData ::
  "(json \<times> gitInfo) list \<Rightarrow> project list \<Rightarrow> analyzerDb \<times> buffers \<Rightarrow> analyzerDb \<times> buffers" where
  "relatedData ((packageJson, gitInfo) # batch) (project # ps) (db, b) =
     relatedData batch ps
       (deleteChildren (p_id project) db,
        b\<lparr> allDependencies := allDependencies b @ prepareDependenciesData (p_id project) packageJson,
           allScripts := allScripts b @ prepareScriptsData (p_id project) packageJson,
           allKeywords := allKeywords b @ prepareKeywordsData (p_id project) packageJson,
           allPeople := allPeople b @ preparePeopleData (p_id project) packageJson \<rparr>)"
| "relatedData batch ps s = s"

text \<open>Lines 432-437.\<close>

definition createMany :: "buffers \<Rightarrow> analyzerDb \<Rightarrow> analyzerDb" where
  "createMany b db =
     db\<lparr> projectDependencies :=
           (if length (allDependencies b) > 0 then projectDependencies db @ allDependencies b
            else projectDependencies db),
         projectScripts :=
           (if length (allScripts b) > 0 then projectScripts db @ allScripts b
            else projectScripts db),
         projectKeywords :=
           (if length (allKeywords b) > 0 then projectKeywords db @ allKeywords b
            else projectKeywords db),
         projectPersons :=
           (if length (allPeople b) > 0 then projectPersons db @ allPeople b
            else projectPersons db) \<rparr>"

text \<open>
  \<^verbatim>\<open>processBatch(batch)\<close>: the store it leaves, or the error it throws. An error
  of the preparation (lines 383-391) is thrown before the transaction is opened; an
  error inside the transaction rolls it back and is rethrown. Either way the store
  is then as it was.
\<close>

definition processBatch ::
  "helpers \<Rightarrow> (string \<Rightarrow> nat) \<Rightarrow> (json \<times> gitInfo) list \<Rightarrow> analyzerDb \<Rightarrow>
   jsError + analyzerDb" where
  "processBatch this newId batch db =
     (case prepareAll this batch of
        Inl err \<Rightarrow> Inl err
      | Inr projectsData \<Rightarrow>
          (case upsertAll newId projectsData db of
             Inl err \<Rightarrow> Inl err
           | Inr (db1, ps) \<Rightarrow>
               (case relatedData batch ps
                       (db1, \<lparr> allDependencies = [], allScripts = [], allKeywords = [],
                               allPeople = [] \<rparr>) of
                  (db2, b) \<Rightarrow> Inr (createMany b db2))))"

definition emptyAnalyzerDb :: analyzerDb where
  "emptyAnalyzerDb = \<lparr> projects = [], projectDependencies = [], projectScripts = [],
                       projectKeywords = [], projectPersons = [] \<rparr>"

definition manifestV1 :: json where
  "manifestV1 = JObj [(''name'', JStr ''app''), (''version'', JStr ''1.0.0''),
                      (''dependencies'', JObj [(''left-pad'', JStr ''^1.0.0'')])]"

definition manifestV2 :: json where
  "manifestV2 = JObj [(''name'', JStr ''app''), (''version'', JStr ''2.0.0'')]"

definition rootGit :: gitInfo where
  "rootGit = \<lparr> g_owner = Some ''o'', g_repo = Some ''app'', g_path = Some ''package.json'' \<rparr>"

lemma prepareDependenciesData_projectId:
  "d \<in> set (prepareDependenciesData projectId pkg) \<Longrightarrow> pd_projectId d = projectId"
  by (auto simp: prepareDependenciesData_def)

lemma saveDependencies_replaces:
  "filter (\<lambda>d. pd_projectId d = projectId) (projectDependencies (saveDependencies projectId pkg db)) =
     prepareDependenciesData projectId pkg \<and>
   filter (\<lambda>d. pd_projectId d \<noteq> projectId) (projectDependencies (saveDependencies projectId pkg db)) =
     filter (\<lambda>d. pd_projectId d \<noteq> projectId) (projectDependencies db)"
proof -
  have all: "filter (\<lambda>d. pd_projectId d = projectId) (prepareDependenciesData projectId pkg) =
      prepareDependenciesData projectId pkg"
    by (rule filter_True) (simp add: prepareDependenciesData_projectId)
  have none: "filter (\<lambda>d. pd_projectId d \<noteq> projectId) (prepareDependenciesData projectId pkg) = []"
    by (simp add: filter_empty_conv prepareDependenciesData_projectId)
  have gone: "filter (\<lambda>d. pd_projectId d = projectId)
      (filter (\<lambda>d. pd_projectId d \<noteq> projectId) (projectDependencies db)) = []"
    by (simp add: filter_empty_conv)
  show ?thesis
    using all none gone
    by (cases "prepareDependenciesData projectId pkg = []")
       (simp_all add: saveDependencies_def Let_def)
qed

definition leftPad :: projectDependency where
  "leftPad = \<lparr> pd_projectId = 1, pd_packageName = ''left-pad'', pd_version = ''^1.0.0'',
               pd_dependencyType = PRODUCTION \<rparr>"

text \<open>The store after the analysis of \<open>manifestV1\<close> alone, the five columns being null.\<close>

definition analyzedV1 :: analyzerDb where
  "analyzedV1 =
     \<lparr> projects = [\<lparr> p_id = 1, p_name = ''app'', p_version = JStr ''1.0.0'',
                      p_description = JNull, p_license = JNull, p_licenseUrl = JNull,
                      p_projectType = JNull, p_packageManager = JNull,
                      p_packageManagerVersion = JNull \<rparr>],
       projectDependencies = [leftPad],
       projectScripts = [], projectKeywords = [], projectPersons = [] \<rparr>"

text \<open>
  C7. Two inputs on which the stored dependency rows differ from the rows derived from
  the new manifest. With the class exactly as the source file gives it, the
  re-analysis of project \<^verbatim>\<open>app\<close> with a manifest that has dropped
  \<^verbatim>\<open>left-pad\<close> throws a \<^verbatim>\<open>TypeError\<close> at line 484 before any transaction is
  opened, and the \<^verbatim>\<open>left-pad\<close> row stays. With whatever the five absent methods
  return, a batch that holds two manifests of the project \<^verbatim>\<open>app\<close>, the first with
  the dependency \<^verbatim>\<open>left-pad\<close> and the second without it, leaves the project at the
  second manifest's version with the \<^verbatim>\<open>left-pad\<close> row of the first: lines 412-429
  delete the rows of the project twice and then insert the rows of both manifests.
  The second manifest derives no dependency rows, and saving the same two manifests
  one after the other with \<^verbatim>\<open>saveDependencies\<close> leaves none.
\<close>

theorem C7_processBatch_keeps_dropped_dependency:
  "processBatch (returning (\<lambda>x. JNull) (\<lambda>x. JNull) (\<lambda>x. JNull) (\<lambda>x. JNull) (\<lambda>x. JNull))
       (\<lambda>n. 1) [(manifestV1, rootGit)] emptyAnalyzerDb = Inr analyzedV1 \<and>
   projectDependencies analyzedV1 = [leftPad] \<and>
   processBatch absentHelpers newId [(manifestV2, rootGit)] analyzedV1 = Inl TypeError \<and>
   processBatch (returning license licenseUrl projectType packageManager packageManagerVersion)
       (\<lambda>n. 1) [(manifestV1, rootGit), (manifestV2, rootGit)] emptyAnalyzerDb =
     Inr \<lparr> projects = [\<lparr> p_id = 1, p_name = ''app'', p_version = JStr ''2.0.0'',
                          p_description = JNull, p_license = license None,
                          p_licenseUrl = licenseUrl None,
                          p_projectType = projectType manifestV1,
                          p_packageManager = packageManager manifestV1,
                          p_packageManagerVersion = packageManagerVersion manifestV1 \<rparr>],
           projectDependencies = [leftPad],
           projectScripts = [], projectKeywords = [], projectPersons = [] \<rparr> \<and>
   prepareDependenciesData 1 manifestV2 = [] \<and>
   projectDependencies (saveDependencies 1 manifestV2 (saveDependencies 1 manifestV1 emptyAnalyzerDb)) = []"
  by code_simp

text \<open>
  C6. The text \<^verbatim>\<open>Jane Doe <jane@x.com> (https://x.com)\<close> parses to the name
  \<^verbatim>\<open>Jane Doe\<close>, the email \<^verbatim>\<open>jane@x.com\<close> and the URL \<^verbatim>\<open>https://x.com\<close>, and
  gives one author row with them. An input from which no name resolves gives no row,
  as author, contributor or maintainer, and no error; every row that
  \<^verbatim>\<open>preparePeopleData\<close> produces has a name.
\<close>

theorem C6_person_parsing:
  "parsePersonString (JStr ''Jane Doe <jane@x.com> (https://x.com)'') =
     \<lparr> per_name = Some ''Jane Doe'', per_email = Some ''jane@x.com'',
       per_url = Some ''https://x.com'' \<rparr> \<and>
   preparePeopleData projectId (JObj [(''author'', JStr ''Jane Doe <jane@x.com> (https://x.com)'')]) =
     [\<lparr> pp_projectId = projectId, pp_name = ''Jane Doe'', pp_email = Some ''jane@x.com'',
        pp_url = Some ''https://x.com'', pp_role = AUTHOR \<rparr>] \<and>
   (per_name (parsePersonString p) = None \<longrightarrow> personRow projectId role p = []) \<and>
   (per_name (parsePersonString p) = None \<longrightarrow>
      preparePeopleData projectId (JObj [(''author'', p)]) = [] \<and>
      preparePeopleData projectId (JObj [(''contributors'', JArr [p])]) = [] \<and>
      preparePeopleData projectId (JObj [(''maintainers'', JArr [p])]) = []) \<and>
   (\<forall>row \<in> set (preparePeopleData projectId pkg). pp_name row \<noteq> [])"
proof -
  have ex: "parsePersonString (JStr ''Jane Doe <jane@x.com> (https://x.com)'') =
     \<lparr> per_name = Some ''Jane Doe'', per_email = Some ''jane@x.com'',
       per_url = Some ''https://x.com'' \<rparr>"
    by code_simp
  have row: "personRow projectId role (JStr ''Jane Doe <jane@x.com> (https://x.com)'') =
     [\<lparr> pp_projectId = projectId, pp_name = ''Jane Doe'', pp_email = Some ''jane@x.com'',
        pp_url = Some ''https://x.com'', pp_role = role \<rparr>]" for role
    unfolding personRow_def ex by simp
  have drop: "personRow projectId role p = []" if "per_name (parsePersonString p) = None" for role p
    using that by (simp add: personRow_def)
  have named: "pp_name row \<noteq> []" if "row \<in> set (personRow projectId role q)" for row role q
    using that by (auto simp: personRow_def Let_def split: option.splits if_splits)
  have all: "\<forall>row \<in> set (preparePeopleData projectId pkg). pp_name row \<noteq> []"
    using named by (auto simp: preparePeopleData_def split: option.splits if_splits)
  show ?thesis
    using ex row drop all
    by (simp add: preparePeopleData_def arrayProp_def)
qed

theorem C6_person_parsing_witness:
  "per_name (parsePersonString (JStr ''<jane@x.com> (https://x.com)'')) = None \<and>
   per_email (parsePersonString (JStr ''<jane@x.com> (https://x.com)'')) = Some ''jane@x.com'' \<and>
   preparePeopleData 7 (JObj [(''author'', JStr ''<jane@x.com> (https://x.com)'')]) = [] \<and>
   preparePeopleData 7 (JObj [(''contributors'', JArr [JStr ''<jane@x.com> (https://x.com)''])]) = []"
proof -
  have n: "per_name (parsePersonString (JStr ''<jane@x.com> (https://x.com)'')) = None"
    by code_simp
  have e: "per_email (parsePersonString (JStr ''<jane@x.com> (https://x.com)'')) = Some ''jane@x.com''"
    by code_simp
  show ?thesis
    using C6_person_parsing[of 7 "JStr ''<jane@x.com> (https://x.com)''" AUTHOR "JNull"] n e
    by blast
qed

section \<open>Running the synchronisation twice\<close>








definition upToDate :: "nat \<Rightarrow> githubRepo \<Rightarrow> repository \<Rightarrow> bool" where
  "upToDate orgId g r =
     (r_organizationId r = orgId \<and> r_name r = gh_name g \<and> r_fullName r = gh_full_name g \<and>
      r_url r = gh_html_url g \<and>
      r_defaultBranch r =
        (case gh_default_branch g of None \<Rightarrow> ''main'' | Some b \<Rightarrow> if b = [] then ''main'' else b) \<and>
      r_description r = gh_description g \<and> r_githubId r = Some (gh_id g))"

lemma upToDate_commonRepoData [simp]: "upToDate orgId g (commonRepoData orgId t g x)"
  by (simp add: upToDate_def commonRepoData_def)


lemma upToDate_flag [simp]:
  "upToDate orgId g (r\<lparr>r_hasPackageJson := flag\<rparr>) = upToDate orgId g r"
  by (simp add: upToDate_def)

definition manifestFor :: "json \<Rightarrow> packageJson \<Rightarrow> bool" where
  "manifestFor pkg p =
     (orKeep (getProp pkg ''name'') (pj_name p) = pj_name p \<and>
      orKeep (getProp pkg ''version'') (pj_version p) = pj_version p \<and>
      orKeep (getProp pkg ''description'') (pj_description p) = pj_description p \<and>
      orKeep (getProp pkg ''author'') (pj_author p) = pj_author p \<and>
      orKeep (getProp pkg ''license'') (pj_license p) = pj_license p \<and>
      pj_dependencies p = orEmptyObject (getProp pkg ''dependencies'') \<and>
      pj_devDependencies p = orEmptyObject (getProp pkg ''devDependencies'') \<and>
      pj_scripts p = orEmptyObject (getProp pkg ''scripts'') \<and> pj_fullContent p = pkg)"

lemma orKeep_idem [simp]: "orKeep x (orKeep x old) = orKeep x old"
  by (cases x) simp_all

lemma manifestFor_packageJsonData [simp]: "manifestFor pkg (packageJsonData pkg t p)"
  by (simp add: manifestFor_def packageJsonData_def)






definition frame :: "nat \<Rightarrow> database \<Rightarrow> database \<Rightarrow> bool" where
  "frame i db db' =
     (filter (\<lambda>x. r_id x \<noteq> i) (repositories db') = filter (\<lambda>x. r_id x \<noteq> i) (repositories db) \<and>
      filter (\<lambda>p. pj_repositoryId p \<noteq> i) (packageJsons db') =
        filter (\<lambda>p. pj_repositoryId p \<noteq> i) (packageJsons db))"

lemma frame_refl: "frame i db db"
  by (simp add: frame_def)





































































end
